theory Spec2Isabelle
  imports Main "HOL-Library.Multiset" "HOL-Library.Word"
begin

section \<open>Strings of the Go standard library\<close>

text \<open>
  Go strings are byte sequences; a \<open>string\<close> here is the list of those bytes.
  \<open>toLowerASCII\<close> folds the bytes \<open>A\<close> to \<open>Z\<close> onto \<open>a\<close> to \<open>z\<close>.
\<close>

definition toLowerASCII :: "char \<Rightarrow> char" where
  "toLowerASCII c =
     (case map_of (zip ''ABCDEFGHIJKLMNOPQRSTUVWXYZ'' ''abcdefghijklmnopqrstuvwxyz'') c of
        Some l \<Rightarrow> l
      | None \<Rightarrow> c)"

text \<open>A string is ASCII when none of its bytes has the top bit set.\<close>

definition isASCII :: "string \<Rightarrow> bool" where
  "isASCII s = list_all (\<lambda>c. \<not> digit7 c) s"

text \<open>\<open>strconv.ParseBool\<close>: the accepted spellings; every other string is an error.\<close>

definition ParseBool :: "string \<Rightarrow> bool option" where
  "ParseBool str =
     (if str \<in> set [''1'', ''t'', ''T'', ''true'', ''TRUE'', ''True''] then Some True
      else if str \<in> set [''0'', ''f'', ''F'', ''false'', ''FALSE'', ''False''] then Some False
      else None)"

text \<open>
  \<open>strings.Split(id, "__")\<close>: the pieces between the non-overlapping occurrences of the
  separator, found from the left. The first argument holds the current piece, reversed.
\<close>

fun splitUnderscores :: "string \<Rightarrow> string \<Rightarrow> string list" where
  "splitUnderscores cur [] = [rev cur]"
| "splitUnderscores cur [a] = [rev (a # cur)]"
| "splitUnderscores cur (a # b # rest) =
     (if a = CHR ''_'' \<and> b = CHR ''_'' then rev cur # splitUnderscores [] rest
      else splitUnderscores (a # cur) (b # rest))"

section \<open>Errors\<close>

datatype error =
    Error string                \<comment> \<open>\<open>fmt.Errorf\<close> with a plain message, or a library error\<close>
  | Wrapf string error          \<comment> \<open>\<open>fmt.Errorf("...: %w", err)\<close>\<close>
  | Canceled                    \<comment> \<open>\<open>ctx.Err()\<close> of a cancelled context\<close>
  | Fatal error                 \<comment> \<open>\<open>log.Fatalf\<close>: the process exits\<close>

section \<open>Topics\<close>

type_synonym TopicScope = int
type_synonym TopicName = string
type_synonym Pod = string
type_synonym Org = string

definition TopicScopePod :: TopicScope where "TopicScopePod = 0"
definition TopicScopeOrg :: TopicScope where "TopicScopeOrg = 1"
definition TopicScopeGlobal :: TopicScope where "TopicScopeGlobal = 2"

text \<open>\<open>SimpleTopicDescriptor\<close>: a scope and a name.\<close>

record TopicDescriptor =
  scope :: TopicScope
  name :: TopicName

text \<open>The three implementations of the \<open>Topic\<close> interface.\<close>

datatype Topic =
    globalTopic TopicName
  | podTopic TopicName Pod
  | orgTopic TopicName Pod Org

definition ParseTopic :: "string \<Rightarrow> error + Topic" where
  "ParseTopic ident =
     (case splitUnderscores [] ident of
        [n] \<Rightarrow> Inr (globalTopic n)
      | [n, p] \<Rightarrow> Inr (podTopic n p)
      | [n, p, org] \<Rightarrow> Inr (orgTopic n p org)
      | _ \<Rightarrow> Inl (Error (''invalid topic id: '' @ ident)))"

text \<open>
  \<open>buildTopicRegexes\<close>: the subscription strings of a topic descriptor for the configured
  pods. The \<open>switch\<close> has no default: any other scope value leaves the result empty.
\<close>

definition buildTopicRegexes :: "TopicDescriptor \<Rightarrow> Pod list \<Rightarrow> string list" where
  "buildTopicRegexes topic pods =
     (if scope topic = TopicScopeGlobal then [name topic]
      else if scope topic = TopicScopePod then map (\<lambda>p. name topic @ ''__'' @ p) pods
      else if scope topic = TopicScopeOrg
        then map (\<lambda>p. ''^'' @ name topic @ ''__'' @ p @ ''__.+'') pods
      else [])"

section \<open>Events and Kafka messages\<close>

text \<open>\<open>Event\<close>: the envelope of an event. \<open>Headers\<close> is a Go map from string to string.\<close>

record Event =
  Headers :: "string \<rightharpoonup> string"
  ID :: string
  Timestamp :: int
  Type :: string
  ContentJSON :: string

definition HeaderKeyGroupID :: string where "HeaderKeyGroupID = ''groupId''"
definition HeaderKeyIsCompactEvent :: string where "HeaderKeyIsCompactEvent = ''isCompactedEvent''"

text \<open>Reading a Go map at a missing key gives the empty string.\<close>

definition header :: "Event \<Rightarrow> string \<Rightarrow> string" where
  "header event k = (case Headers event k of None \<Rightarrow> [] | Some v \<Rightarrow> v)"

text \<open>
  \<open>kafka.Message\<close> with its \<open>TopicPartition\<close> flattened: the topic is a pointer that may be
  nil, \<open>tpError\<close> is the error of the topic partition, \<open>MsgHeaders\<close> is the list of
  \<open>kafka.Header\<close> (key and value) in the order of the message.
\<close>

record kafkaMessage =
  tpTopic :: "string option"
  tpPartition :: int
  tpOffset :: int
  tpError :: "string option"
  Key :: string
  Value :: string
  MsgHeaders :: "(string \<times> string) list"

text \<open>
  What the consumer calls outside this package: \<open>json.Unmarshal\<close> into an \<open>Event\<close> and into
  a string, the S3 download of a bucket and key, the feature flag of the metrics
  configuration, the Kafka client's \<open>Pause\<close> of a topic partition and
  \<open>SubscribeTopics\<close>, and the folding of Unicode runes by \<open>strings.EqualFold\<close>.
\<close>

record library =
  jsonUnmarshalEvent :: "string \<Rightarrow> error + Event"
  jsonUnmarshalString :: "string \<Rightarrow> error + string"
  s3Download :: "string \<Rightarrow> string \<Rightarrow> error + string"
  IsNormalizedMetricEnabled :: bool
  consumerPause :: "string \<times> int \<Rightarrow> error option"
  consumerSubscribeTopics :: "string list \<Rightarrow> error option"
  unicodeEqualFold :: "string \<Rightarrow> string \<Rightarrow> bool"

text \<open>
  \<open>strings.EqualFold\<close>: equality under case folding. Two strings that are equal once
  their ASCII letters are folded match. Two ASCII strings match only then. For strings
  with a byte above 127 that differ after the ASCII folding, the library's folding of
  Unicode runes decides.
\<close>

definition EqualFold :: "library \<Rightarrow> string \<Rightarrow> string \<Rightarrow> bool" where
  "EqualFold l s t =
     (map toLowerASCII s = map toLowerASCII t
      \<or> (\<not> (isASCII s \<and> isASCII t) \<and> unicodeEqualFold l s t))"

text \<open>
  \<open>getHeader\<close>: the value of the first header whose key matches, else the empty string.
  The first argument is the library that \<open>strings.EqualFold\<close> needs.
\<close>

fun getHeaderIn :: "library \<Rightarrow> (string \<times> string) list \<Rightarrow> string \<Rightarrow> string" where
  "getHeaderIn l [] k = []"
| "getHeaderIn l (h # hs) k = (if EqualFold l (fst h) k then snd h else getHeaderIn l hs k)"

definition getHeader :: "library \<Rightarrow> kafkaMessage \<Rightarrow> string \<Rightarrow> string" where
  "getHeader l msg k = getHeaderIn l (MsgHeaders msg) k"

text \<open>\<open>getHeaderBool\<close>: the error of \<open>ParseBool\<close> is dropped, its value is then false.\<close>

definition getHeaderBool :: "library \<Rightarrow> kafkaMessage \<Rightarrow> string \<Rightarrow> bool" where
  "getHeaderBool l msg k = (case ParseBool (getHeader l msg k) of None \<Rightarrow> False | Some b \<Rightarrow> b)"

section \<open>The consumer\<close>

record ConsumerConfig =
  GroupID :: string
  Topics :: "TopicDescriptor list"
  Pods :: "Pod list"
  ExternalBucket :: string
  MaxPollRecords :: int
  MaxPartitionConcurrency :: int

text \<open>
  \<open>backoff.BackOff\<close>: an object with the methods \<open>NextBackOff\<close> and \<open>Reset\<close>. Its
  implementation, the exponential backoff of the backoff package, is not among the
  sources, so the object is taken as it behaves: the wait that a call of \<open>NextBackOff\<close>
  returns after a given series of earlier calls, the earliest first. Durations are in
  milliseconds.
\<close>

datatype backoffCall = NextBackOffCall | ResetCall

type_synonym BackOff = "backoffCall list \<Rightarrow> int"

text \<open>
  The wait that the next call of \<open>NextBackOff\<close> returns, the object after that call, and
  the object after a call of \<open>Reset\<close>.
\<close>

definition nextWait :: "BackOff \<Rightarrow> int" where
  "nextWait b = b []"

definition afterNext :: "BackOff \<Rightarrow> BackOff" where
  "afterNext b = (\<lambda>calls. b (NextBackOffCall # calls))"

definition afterReset :: "BackOff \<Rightarrow> BackOff" where
  "afterReset b = (\<lambda>calls. b (ResetCall # calls))"

definition NextBackOff :: "BackOff \<Rightarrow> int \<times> BackOff" where
  "NextBackOff b = (nextWait b, afterNext b)"

definition Reset :: "BackOff \<Rightarrow> BackOff" where
  "Reset b = afterReset b"

record kafkaEventConsumer =
  config :: ConsumerConfig
  lib :: library
  batchSize :: int
  errorBackoff :: BackOff

text \<open>
  \<open>newKafkaEventConsumer\<close>, without the construction of the Kafka client: the batch size
  defaults to 64, and the backoff is the one of \<open>backoff.NewExponentialBackOff()\<close> with its
  \<open>MaxInterval\<close> set to 30 seconds. The second argument gives that object for each value
  of \<open>MaxInterval\<close>.
\<close>

definition newKafkaEventConsumer ::
    "library \<Rightarrow> (int \<Rightarrow> BackOff) \<Rightarrow> ConsumerConfig \<Rightarrow> kafkaEventConsumer" where
  "newKafkaEventConsumer l newBackOff cfg =
     \<lparr>config = cfg, lib = l,
      batchSize = (if MaxPollRecords cfg \<le> 0 then 64 else MaxPollRecords cfg),
      errorBackoff = newBackOff 30000\<rparr>"

text \<open>\<open>s3ExternalDownloader.Download\<close>: fetch the object, then parse it as an \<open>Event\<close>.\<close>

definition Download :: "kafkaEventConsumer \<Rightarrow> string \<Rightarrow> error + Event" where
  "Download c location =
     (case s3Download (lib c) (ConsumerConfig.ExternalBucket (config c)) location of
        Inl err \<Rightarrow> Inl err
      | Inr bytes \<Rightarrow>
          (case jsonUnmarshalEvent (lib c) bytes of Inl err \<Rightarrow> Inl err | Inr event \<Rightarrow> Inr event))"

definition toEvent :: "kafkaEventConsumer \<Rightarrow> kafkaMessage \<Rightarrow> error + Event" where
  "toEvent c msg =
     (case jsonUnmarshalEvent (lib c) (Value msg) of
        Inl err \<Rightarrow> Inl (Wrapf ''parse event'' err)
      | Inr rawEvent \<Rightarrow>
          if \<not> getHeaderBool (lib c) msg HeaderKeyIsCompactEvent then Inr rawEvent
          else (case jsonUnmarshalString (lib c) (ContentJSON rawEvent) of
                  Inl err \<Rightarrow>
                    Inl (Wrapf (''parse large event s3 location '' @ ContentJSON rawEvent) err)
                | Inr s3ObjectKey \<Rightarrow>
                    (case Download c s3ObjectKey of
                       Inl err \<Rightarrow>
                         Inl (Wrapf (''download event from s3 key '' @ CHR 0x27 # s3ObjectKey
                                      @ [CHR 0x27]) err)
                     | Inr event \<Rightarrow> Inr event)))"

text \<open>
  What one call of \<open>handleMessage\<close> does, in order: log lines, the call of the handler with
  its result, and metric updates. The function itself returns nothing. A nil topic pointer
  is a panic of the dereference.
\<close>

datatype effect =
    LogErrorf string error
  | LogWarnf string
  | HandleEvent Topic Event "error option"
  | eventHandlerFailed_Inc
  | eventHandlerSuccess_Inc
  | Observe_durations
  | Panic

type_synonym Handler = "Topic \<Rightarrow> Event \<Rightarrow> error option"

definition handleMessage :: "kafkaEventConsumer \<Rightarrow> Handler \<Rightarrow> kafkaMessage \<Rightarrow> effect list" where
  "handleMessage c handler msg =
     (let groupID = getHeader (lib c) msg HeaderKeyGroupID in
      if groupID \<noteq> [] \<and> \<not> EqualFold (lib c) groupID (GroupID (config c)) then []
      else case tpTopic msg of
        None \<Rightarrow> [Panic]
      | Some t \<Rightarrow>
         (case ParseTopic t of
            Inl err \<Rightarrow> [LogErrorf ''invalid topic'' err]
          | Inr topic \<Rightarrow>
             (case toEvent c msg of
                Inl err \<Rightarrow> [LogErrorf ''error converting message to event'' err]
              | Inr event \<Rightarrow>
                 (let groupID2 = header event HeaderKeyGroupID in
                  if groupID2 \<noteq> [] \<and> \<not> EqualFold (lib c) groupID2 (GroupID (config c))
                  then [LogWarnf (''skipping event targeted at group: '' @ groupID2)]
                  else
                    (let err = handler topic event;
                         enabled = IsNormalizedMetricEnabled (lib c)
                     in [HandleEvent topic event err]
                        @ (case err of
                             Some e \<Rightarrow> LogErrorf ''event handler failed'' e
                                       # (if enabled then [eventHandlerFailed_Inc] else [])
                           | None \<Rightarrow> (if enabled then [eventHandlerSuccess_Inc] else []))
                        @ (if enabled then [Observe_durations] else []))))))"

text \<open>\<open>handleMessages\<close>: the messages of one run, one after the other.\<close>

fun handleMessages :: "kafkaEventConsumer \<Rightarrow> Handler \<Rightarrow> kafkaMessage list \<Rightarrow> effect list" where
  "handleMessages c handler [] = []"
| "handleMessages c handler (msg # messages) =
     handleMessage c handler msg @ handleMessages c handler messages"

fun isHandleEvent :: "effect \<Rightarrow> bool" where
  "isHandleEvent (HandleEvent t e r) = True"
| "isHandleEvent _ = False"

definition handlerInvoked :: "effect list \<Rightarrow> bool" where
  "handlerInvoked effects = (filter isHandleEvent effects \<noteq> [])"

section \<open>The publisher's upload threshold\<close>

text \<open>Go's \<open>int\<close> on a 64-bit platform: a 64-bit word read as two's complement.\<close>

type_synonym go_int = "64 word"

record PublisherConfig =
  BootstrapServers :: string
  CompressionType :: string
  MessageMaxBytes :: go_int
  ExternalBucket :: string

record uploaderConfig =
  bucket :: string
  uploadThreshold :: go_int

text \<open>
  \<open>NewPublisher\<close>: the creation of the Kafka producer may fail (first argument); otherwise
  the uploader is configured with the bucket and the threshold.
\<close>

definition NewPublisher :: "(PublisherConfig \<Rightarrow> error option) \<Rightarrow> PublisherConfig \<Rightarrow> error + uploaderConfig" where
  "NewPublisher newProducer cfg =
     (case newProducer cfg of
        Some err \<Rightarrow> Inl (Wrapf ''create publisher'' err)
      | None \<Rightarrow>
          (let uc = \<lparr>bucket = PublisherConfig.ExternalBucket cfg,
                     uploadThreshold = MessageMaxBytes cfg - 100000\<rparr>
           in Inr (if uploadThreshold uc <s 0 then uc\<lparr>uploadThreshold := 0\<rparr> else uc)))"

text \<open>
  \<open>ShouldUpload\<close>: the event is a pointer that may be nil; the error of \<open>json.Marshal\<close>
  (first argument) is dropped, the bytes are then empty.
\<close>

definition ShouldUpload :: "(Event \<Rightarrow> error + string) \<Rightarrow> uploaderConfig \<Rightarrow> Event option \<Rightarrow> bool" where
  "ShouldUpload jsonMarshal uc event =
     (case event of
        None \<Rightarrow> False
      | Some e \<Rightarrow>
          if bucket uc = [] then False
          else (let eventJson = (case jsonMarshal e of Inl err \<Rightarrow> [] | Inr bytes \<Rightarrow> bytes)
                in sint (uploadThreshold uc) < int (length eventJson)))"

section \<open>Key runs of a partition\<close>

text \<open>
  A Go map from keys to slices, kept as an association list in the order in which the
  keys were first inserted. \<open>appendByKey m k x\<close> is \<open>m[k] = append(m[k], x)\<close>.
\<close>

fun appendByKey :: "('k \<times> 'a list) list \<Rightarrow> 'k \<Rightarrow> 'a \<Rightarrow> ('k \<times> 'a list) list" where
  "appendByKey [] k x = [(k, [x])]"
| "appendByKey ((k', xs) # rest) k x =
     (if k' = k then (k', xs @ [x]) # rest else (k', xs) # appendByKey rest k x)"

text \<open>
  The order in which \<open>range\<close> visits the entries of a map is not fixed by Go: it is a
  parameter, a function that rearranges the entries. \<open>visitsEachEntryOnce\<close> is what Go
  promises of it.
\<close>

type_synonym ('k, 'a) mapRange = "('k \<times> 'a list) list \<Rightarrow> ('k \<times> 'a list) list"

definition visitsEachEntryOnce :: "('k, 'a) mapRange \<Rightarrow> bool" where
  "visitsEachEntryOnce rangeOrder = (\<forall>entries. mset (rangeOrder entries) = mset entries)"

text \<open>
  The first loop of \<open>writePartitionedMessages\<close>: the runs written to the channel during the
  loop (one per message with an empty key) and the map \<open>byKey\<close> after it.
\<close>

fun partitionLoop ::
    "(string \<times> kafkaMessage list) list \<Rightarrow> kafkaMessage list
     \<Rightarrow> kafkaMessage list list \<times> (string \<times> kafkaMessage list) list" where
  "partitionLoop byKey [] = ([], byKey)"
| "partitionLoop byKey (msg # messages) =
     (if Key msg = []
      then (case partitionLoop byKey messages of (out, byKey') \<Rightarrow> ([msg] # out, byKey'))
      else partitionLoop (appendByKey byKey (Key msg) msg) messages)"

text \<open>\<open>writePartitionedMessages\<close>: the runs in the order in which they are written to the channel.\<close>

definition writePartitionedMessages ::
    "(string, kafkaMessage) mapRange \<Rightarrow> kafkaMessage list \<Rightarrow> kafkaMessage list list" where
  "writePartitionedMessages rangeOrder messages =
     (case partitionLoop [] messages of (out, byKey) \<Rightarrow> out @ map snd (rangeOrder byKey))"

section \<open>Processing a partition\<close>

text \<open>
  \<open>processPartition\<close> starts \<open>workerCount\<close> goroutines that receive runs from an unbuffered
  channel, writes the runs, closes the channel, waits for the workers, stores the offsets
  and, deferred, resumes the partition. The goroutines interleave: an execution is a list
  of steps, each taken by one goroutine.
  \<^item> \<open>pending\<close>: the runs the writer has not handed over yet;
  \<^item> \<open>workers\<close>: for each worker the messages of its run not handled yet (empty: the worker
    waits on the channel);
  \<^item> \<open>stored\<close>: how many offsets the final loop has stored;
  \<^item> \<open>events\<close>: what has happened so far, in order.
\<close>

datatype pevent =
    Handled kafkaMessage "effect list"
  | Stored kafkaMessage
  | Resumed


datatype step = Receive nat | Handle nat | Store | Resume







fun handledOf :: "pevent list \<Rightarrow> kafkaMessage list" where
  "handledOf [] = []"
| "handledOf (Handled msg effects # es) = msg # handledOf es"
| "handledOf (e # es) = handledOf es"




text \<open>
  \<open>groupedBy byKey xs\<close>: the map holds, for each key of \<open>xs\<close>, the messages of \<open>xs\<close> with
  that key in their order, and has no other key.
\<close>

definition groupedBy :: "(string \<times> kafkaMessage list) list \<Rightarrow> kafkaMessage list \<Rightarrow> bool" where
  "groupedBy b xs \<longleftrightarrow>
     distinct (map fst b)
     \<and> (\<forall>k. map_of b k = (if k \<in> Key ` set xs then Some (filter (\<lambda>m. Key m = k) xs) else None))"

section \<open>Polling\<close>

type_synonym topicPartition = "string \<times> int"

text \<open>
  \<open>messageBatch\<close>: the polled messages by topic partition (a Go map, kept in the order of
  first insertion) and their number.
\<close>

record messageBatch =
  batchMessages :: "(topicPartition \<times> kafkaMessage list) list"
  messageCount :: int

definition newMessageBatch :: messageBatch where
  "newMessageBatch = \<lparr>batchMessages = [], messageCount = 0\<rparr>"

definition newTopicPartition :: "kafkaMessage \<Rightarrow> error + topicPartition" where
  "newTopicPartition msg =
     (case tpTopic msg of
        None \<Rightarrow> Inl (Error ''topic is required'')
      | Some t \<Rightarrow> Inr (t, tpPartition msg))"

definition addMessage :: "messageBatch \<Rightarrow> kafkaMessage \<Rightarrow> error + messageBatch" where
  "addMessage b msg =
     (case newTopicPartition msg of
        Inl err \<Rightarrow> Inl err
      | Inr tp \<Rightarrow> Inr (b\<lparr>batchMessages := appendByKey (batchMessages b) tp msg,
                        messageCount := messageCount b + 1\<rparr>))"

text \<open>
  What \<open>Poll\<close> returns. An assignment or revocation carries the result of the call of
  \<open>Assign\<close> or \<open>Unassign\<close> that answers it.
\<close>

datatype kafkaEvent =
    AssignedPartitions "error option"
  | RevokedPartitions "error option"
  | Message kafkaMessage
  | KafkaError string
  | Stats string
  | OtherEvent

text \<open>
  The environment of the poll loop is a script: what each call of \<open>Poll\<close> returns, and
  \<open>Cancelled\<close> at the point from which the context is done. A check of the context looks
  at the head of the script; a poll consumes it. A script that ends without \<open>Cancelled\<close>
  gives no result: the loop would go on polling.
\<close>

datatype transport = Cancelled | Polled "kafkaEvent option"

text \<open>What the poll loop does besides computing: logs, calls of the client, goroutines.\<close>

datatype action =
    Infof string
  | Warnf string error
  | Errorf string error
  | Fatalf string error
  | SubscribeTopics "string list"
  | Assign
  | Unassign
  | eventConsumerPartitionsRevokedFreq_Inc
  | GoReportConsumerLag string
  | Sleep int
  | Pause topicPartition
  | GoProcessPartition topicPartition "kafkaMessage list"

text \<open>
  The loop of \<open>pollBatch\<close> from a batch accumulated so far: the batch and error returned,
  the actions, and the rest of the script. The \<open>break\<close> after a nil event leaves the loop;
  the \<open>break\<close> after a topic partition error only leaves the \<open>switch\<close>. The timeout
  given to \<open>Poll\<close> (5 seconds for an empty batch, none otherwise) bounds how long the call
  waits; what it returns is the script's.
\<close>

fun pollLoop ::
    "int \<Rightarrow> messageBatch \<Rightarrow> action list \<Rightarrow> transport list
     \<Rightarrow> ((messageBatch \<times> error option) \<times> action list \<times> transport list) option" where
  "pollLoop limit batch acts [] =
     (if messageCount batch < limit then None else Some ((batch, None), acts, []))"
| "pollLoop limit batch acts (Cancelled # rest) =
     (if messageCount batch < limit then Some ((batch, Some Canceled), acts, Cancelled # rest)
      else Some ((batch, None), acts, Cancelled # rest))"
| "pollLoop limit batch acts (Polled None # rest) =
     (if messageCount batch < limit then Some ((batch, None), acts, rest)
      else Some ((batch, None), acts, Polled None # rest))"
| "pollLoop limit batch acts (Polled (Some ev) # rest) =
     (if \<not> messageCount batch < limit then Some ((batch, None), acts, Polled (Some ev) # rest)
      else (case ev of
          AssignedPartitions r \<Rightarrow>
            pollLoop limit batch
              (acts @ Infof ''assigned partitions'' # Assign
                 # (case r of None \<Rightarrow> [] | Some err \<Rightarrow> [Errorf ''error assigning partitions'' err]))
              rest
        | RevokedPartitions r \<Rightarrow>
            pollLoop limit batch
              (acts @ eventConsumerPartitionsRevokedFreq_Inc # Infof ''revoked partitions'' # Unassign
                 # (case r of None \<Rightarrow> [] | Some err \<Rightarrow> [Errorf ''error revoking partitions'' err]))
              rest
        | Message msg \<Rightarrow>
            (case tpError msg of
               Some e \<Rightarrow> pollLoop limit batch (acts @ [Errorf ''topic partition error'' (Error e)]) rest
             | None \<Rightarrow>
                (case addMessage batch msg of
                   Inl err \<Rightarrow>
                     pollLoop limit batch (acts @ [Warnf ''error adding message to batch'' err]) rest
                 | Inr batch' \<Rightarrow> pollLoop limit batch' acts rest))
        | KafkaError e \<Rightarrow>
            (if messageCount batch > 0
             then Some ((batch, None), acts @ [Errorf ''kafka error'' (Error e)], rest)
             else Some ((batch, Some (Error (''kafka error: '' @ e))),
                        acts @ [Errorf ''kafka error'' (Error e)], rest))
        | Stats st \<Rightarrow> pollLoop limit batch (acts @ [GoReportConsumerLag st]) rest
        | OtherEvent \<Rightarrow> pollLoop limit batch acts rest))"

definition pollBatch ::
    "kafkaEventConsumer \<Rightarrow> transport list
     \<Rightarrow> ((messageBatch \<times> error option) \<times> action list \<times> transport list) option" where
  "pollBatch c script = pollLoop (batchSize c) newMessageBatch [] script"

section \<open>The poll loop\<close>

text \<open>
  The \<open>for\<close> over the partitions of a batch: pause the partition and start
  \<open>processPartition\<close> in a goroutine. A failing pause is fatal.
\<close>

fun dispatch ::
    "kafkaEventConsumer \<Rightarrow> (topicPartition \<times> kafkaMessage list) list
     \<Rightarrow> action list \<times> error option" where
  "dispatch c [] = ([], None)"
| "dispatch c ((tp, msgs) # rest) =
     (case consumerPause (lib c) tp of
        Some err \<Rightarrow> ([Fatalf ''error pausing partitions'' err], Some (Fatal err))
      | None \<Rightarrow>
          (case dispatch c rest of
             (acts, r) \<Rightarrow> (Pause tp # GoProcessPartition tp msgs # acts, r)))"

definition ctxDone :: "transport list \<Rightarrow> bool" where
  "ctxDone script = (case script of Cancelled # rest \<Rightarrow> True | _ \<Rightarrow> False)"

text \<open>
  The \<open>for\<close> of \<open>run\<close>: the error it returns with, the actions so far and the consumer with
  its backoff. After a failed poll the loop sleeps for what \<open>NextBackOff\<close> returns; after
  a successful one it calls \<open>Reset\<close>. A poll that consumes nothing of the script (a batch
  size below 1, which \<open>newKafkaEventConsumer\<close> excludes) would spin without ever polling:
  no result.
\<close>

function runLoop ::
    "(topicPartition, kafkaMessage) mapRange \<Rightarrow> kafkaEventConsumer \<Rightarrow> action list
     \<Rightarrow> transport list \<Rightarrow> (error \<times> action list \<times> kafkaEventConsumer) option" where
  "runLoop rangeOrder c acts script =
     (if ctxDone script then Some (Canceled, acts, c)
      else (case pollBatch c script of
          None \<Rightarrow> None
        | Some ((batch, Some err), pacts, rest) \<Rightarrow>
            (case NextBackOff (errorBackoff c) of
               (sleepDuration, b) \<Rightarrow>
                 if length rest < length script
                 then runLoop rangeOrder (c\<lparr>errorBackoff := b\<rparr>)
                        (acts @ pacts @ [Errorf ''error polling kafka'' err, Sleep sleepDuration])
                        rest
                 else None)
        | Some ((batch, None), pacts, rest) \<Rightarrow>
            (if \<not> length rest < length script then None
             else if messageCount batch = 0
               then runLoop rangeOrder (c\<lparr>errorBackoff := Reset (errorBackoff c)\<rparr>)
                      (acts @ pacts) rest
             else (case dispatch c (rangeOrder (batchMessages batch)) of
                 (dacts, Some fatal) \<Rightarrow>
                   Some (fatal, acts @ pacts @ dacts,
                         c\<lparr>errorBackoff := Reset (errorBackoff c)\<rparr>)
               | (dacts, None) \<Rightarrow>
                   runLoop rangeOrder (c\<lparr>errorBackoff := Reset (errorBackoff c)\<rparr>)
                     (acts @ pacts @ dacts) rest))))"
  by pat_completeness auto
termination
  by (relation "measure (\<lambda>(rangeOrder, c, acts, script). length script)") auto

text \<open>\<open>run\<close>: subscribe to the topics of the configuration, then loop.\<close>

definition run ::
    "(topicPartition, kafkaMessage) mapRange \<Rightarrow> kafkaEventConsumer \<Rightarrow> transport list
     \<Rightarrow> (error \<times> action list \<times> kafkaEventConsumer) option" where
  "run rangeOrder c script =
     (let topics = concat (map (\<lambda>t. buildTopicRegexes t (Pods (config c))) (Topics (config c)))
      in case consumerSubscribeTopics (lib c) topics of
           Some err \<Rightarrow> Some (Wrapf ''kafka topic subscribe'' err,
                             [Infof ''subscribing to topics'', SubscribeTopics topics], c)
         | None \<Rightarrow> runLoop rangeOrder c [Infof ''subscribing to topics'', SubscribeTopics topics]
                     script)"

text \<open>The durations of the sleeps among the actions of a run, in order.\<close>

fun sleepsOf :: "action list \<Rightarrow> int list" where
  "sleepsOf [] = []"
| "sleepsOf (Sleep d # acts) = d # sleepsOf acts"
| "sleepsOf (a # acts) = sleepsOf acts"

text \<open>
  \<open>pollBatches\<close>: what the successive calls of \<open>pollBatch\<close> return on a script, each call
  starting where the one before stopped, until the context is done.
\<close>

function pollBatches :: "int \<Rightarrow> transport list \<Rightarrow> (messageBatch \<times> error option) list" where
  "pollBatches limit script =
     (if ctxDone script then []
      else (case pollLoop limit newMessageBatch [] script of
          None \<Rightarrow> []
        | Some (r, pacts, rest) \<Rightarrow>
            if length rest < length script then r # pollBatches limit rest else []))"
  by pat_completeness auto
termination
  by (relation "measure (\<lambda>(limit, script). length script)") auto

text \<open>
  \<open>waitsAfter\<close> is what the sleeps of a run are compared with, and no function of the
  code: the waits that a backoff gives for a series of poll results as the specification
  describes them, one wait after each failed poll, the backoff being reset by each
  successful poll.
\<close>

fun waitsAfter :: "BackOff \<Rightarrow> (messageBatch \<times> error option) list \<Rightarrow> int list" where
  "waitsAfter b [] = []"
| "waitsAfter b ((batch, Some err) # results) = nextWait b # waitsAfter (afterNext b) results"
| "waitsAfter b ((batch, None) # results) = waitsAfter (afterReset b) results"

text \<open>
  \<open>addMessages\<close>: the batch after adding the messages one by one, a message that cannot
  be added being left out.
\<close>

definition addMessages :: "messageBatch \<Rightarrow> kafkaMessage list \<Rightarrow> messageBatch" where
  "addMessages b msgs =
     foldl (\<lambda>b msg. case addMessage b msg of Inl err \<Rightarrow> b | Inr b' \<Rightarrow> b') b msgs"

text \<open>What holds of a batch: its count is the number of messages it holds.\<close>

definition batchInv :: "messageBatch \<Rightarrow> bool" where
  "batchInv b \<longleftrightarrow> messageCount b = int (length (concat (map snd (batchMessages b))))"

section \<open>Example inputs\<close>

definition exPlaceholder :: Event where
  "exPlaceholder = \<lparr>Headers = Map.empty, ID = ''1'', Timestamp = 0, Type = ''BIG'',
     ContentJSON = ''location''\<rparr>"

definition exEvent :: Event where
  "exEvent = \<lparr>Headers = [''groupId'' \<mapsto> ''SVC''], ID = ''1'', Timestamp = 0, Type = ''BIG'',
     ContentJSON = ''content''\<rparr>"

definition exForeignEvent :: Event where
  "exForeignEvent = \<lparr>Headers = [''groupId'' \<mapsto> ''other''], ID = ''2'', Timestamp = 0,
     Type = ''T'', ContentJSON = ''content''\<rparr>"

definition exUpperEvent :: Event where
  "exUpperEvent = \<lparr>Headers = [''GROUPID'' \<mapsto> ''other''], ID = ''3'', Timestamp = 0,
     Type = ''T'', ContentJSON = ''content''\<rparr>"

definition exBadEvent :: Event where
  "exBadEvent = \<lparr>Headers = Map.empty, ID = ''4'', Timestamp = 0, Type = ''BAD'',
     ContentJSON = ''content''\<rparr>"

definition exLostPlaceholder :: Event where
  "exLostPlaceholder = \<lparr>Headers = Map.empty, ID = ''5'', Timestamp = 0, Type = ''BIG'',
     ContentJSON = ''elsewhere''\<rparr>"

text \<open>
  A library that parses six payloads and two object locations, holds one object in the
  bucket, never fails to pause, and folds no rune outside ASCII.
\<close>

definition exLibrary :: library where
  "exLibrary = \<lparr>
     jsonUnmarshalEvent = (\<lambda>b. if b = ''placeholder'' then Inr exPlaceholder
                               else if b = ''full'' then Inr exEvent
                               else if b = ''foreign'' then Inr exForeignEvent
                               else if b = ''upper'' then Inr exUpperEvent
                               else if b = ''bad'' then Inr exBadEvent
                               else if b = ''lost'' then Inr exLostPlaceholder
                               else Inl (Error ''invalid character'')),
     jsonUnmarshalString = (\<lambda>b. if b = ''location'' then Inr ''identity/event-big-1.json''
                                else if b = ''elsewhere'' then Inr ''identity/event-big-5.json''
                                else Inl (Error ''invalid character'')),
     s3Download = (\<lambda>b k. if b = ''bucket'' \<and> k = ''identity/event-big-1.json'' then Inr ''full''
                          else Inl (Error ''NoSuchKey'')),
     IsNormalizedMetricEnabled = False,
     consumerPause = (\<lambda>tp. None),
     consumerSubscribeTopics = (\<lambda>topics. None),
     unicodeEqualFold = (\<lambda>s t. False)\<rparr>"

definition exConfig :: ConsumerConfig where
  "exConfig = \<lparr>GroupID = ''svc'', Topics = [\<lparr>scope = TopicScopePod, name = ''identity''\<rparr>],
     Pods = [''dev''], ConsumerConfig.ExternalBucket = ''bucket'', MaxPollRecords = 0,
     MaxPartitionConcurrency = 2\<rparr>"

text \<open>
  A backoff in the manner of the package's exponential backoff with randomised waits: the
  interval starts at \<open>base\<close> and grows by half after each wait, up to \<open>cap\<close>; each wait
  is drawn in the band from half the interval to one and a half times the interval;
  \<open>Reset\<close> returns to \<open>base\<close>. The draws are the last argument, one for each wait.
  \<open>jitterState\<close> is the interval and the draws left after a series of calls.
\<close>

fun jitterState :: "int \<Rightarrow> int \<Rightarrow> int \<times> int list \<Rightarrow> backoffCall list \<Rightarrow> int \<times> int list" where
  "jitterState base cap st [] = st"
| "jitterState base cap (cur, draws) (NextBackOffCall # calls) =
     jitterState base cap (min cap (cur * 3 div 2), tl draws) calls"
| "jitterState base cap (cur, draws) (ResetCall # calls) = jitterState base cap (base, draws) calls"

definition jitteredBackOff :: "int \<Rightarrow> int \<Rightarrow> int list \<Rightarrow> BackOff" where
  "jitteredBackOff base cap draws =
     (\<lambda>calls. case jitterState base cap (base, draws) calls of
        (cur, ds) \<Rightarrow>
          cur - cur div 2 + (case ds of [] \<Rightarrow> 0 | d # ds' \<Rightarrow> d mod (2 * (cur div 2) + 1)))"

definition exConsumer :: kafkaEventConsumer where
  "exConsumer = newKafkaEventConsumer exLibrary (\<lambda>cap. jitteredBackOff 500 cap []) exConfig"

definition exMessage :: "nat \<Rightarrow> string \<Rightarrow> string \<Rightarrow> (string \<times> string) list \<Rightarrow> kafkaMessage" where
  "exMessage off k v hs = \<lparr>tpTopic = Some ''identity__dev'', tpPartition = 0, tpOffset = int off,
     tpError = None, Key = k, Value = v, MsgHeaders = hs\<rparr>"

text \<open>A handler that rejects the events of type \<open>BAD\<close>.\<close>

definition exHandler :: Handler where
  "exHandler topic event = (if Type event = ''BAD'' then Some (Error ''rejected'') else None)"

definition exPublisherConfig :: PublisherConfig where
  "exPublisherConfig = \<lparr>BootstrapServers = ''localhost:9092'', CompressionType = ''gzip'',
     MessageMaxBytes = 100010, PublisherConfig.ExternalBucket = ''bucket''\<rparr>"

definition exMarshal :: "Event \<Rightarrow> error + string" where
  "exMarshal e = Inr (ID e @ Type e @ ContentJSON e)"

definition exShortEvent :: Event where
  "exShortEvent = \<lparr>Headers = Map.empty, ID = ''1'', Timestamp = 0, Type = ''T'',
     ContentJSON = ''12345678''\<rparr>"

definition exLongEvent :: Event where
  "exLongEvent = \<lparr>Headers = Map.empty, ID = ''1'', Timestamp = 0, Type = ''T'',
     ContentJSON = ''123456789''\<rparr>"

text \<open>
  The batch of the specification's scenario: five records of one partition, two with key
  \<open>a\<close>, two with key \<open>b\<close>, one without key. The second is rejected by the handler, the
  fourth belongs to another group.
\<close>

definition exBatch :: "kafkaMessage list" where
  "exBatch = [exMessage 0 ''a'' ''full'' [], exMessage 1 ''b'' ''bad'' [], exMessage 2 [] ''full'' [],
              exMessage 3 ''a'' ''foreign'' [], exMessage 4 ''b'' ''full'' []]"




text \<open>The batch that holds the first message of the example batch.\<close>

definition exPartialBatch :: messageBatch where
  "exPartialBatch = \<lparr>batchMessages = [((''identity__dev'', 0), [exMessage 0 ''a'' ''full'' []])],
     messageCount = 1\<rparr>"

text \<open>
  The draws of a run of the poll loop, a consumer whose backoff takes them, and two
  scripts of what \<open>Poll\<close> returns: twelve broker errors in a row, and three broker errors, a
  message followed by a broker error, and one more broker error. \<open>exPollActions\<close> is the
  run of the second script.
\<close>

definition exDraws :: "int list" where
  "exDraws = [479, 6, 516, 362, 0, 0, 0, 0, 0, 0, 0, 21000]"

definition exPollConsumer :: kafkaEventConsumer where
  "exPollConsumer = newKafkaEventConsumer exLibrary (\<lambda>cap. jitteredBackOff 500 cap exDraws) exConfig"

definition exFailScript :: "transport list" where
  "exFailScript = replicate 12 (Polled (Some (KafkaError ''down''))) @ [Cancelled]"

definition exPollScript :: "transport list" where
  "exPollScript =
     [Polled (Some (KafkaError ''down'')), Polled (Some (KafkaError ''down'')),
      Polled (Some (KafkaError ''down'')),
      Polled (Some (Message (exMessage 0 ''a'' ''full'' []))), Polled (Some (KafkaError ''down'')),
      Polled (Some (KafkaError ''down'')), Cancelled]"

definition exPollActions :: "action list" where
  "exPollActions =
     [Infof ''subscribing to topics'', SubscribeTopics [''identity__dev''],
      Errorf ''kafka error'' (Error ''down''),
      Errorf ''error polling kafka'' (Error ''kafka error: down''), Sleep 729,
      Errorf ''kafka error'' (Error ''down''),
      Errorf ''error polling kafka'' (Error ''kafka error: down''), Sleep 381,
      Errorf ''kafka error'' (Error ''down''),
      Errorf ''error polling kafka'' (Error ''kafka error: down''), Sleep 1079,
      Errorf ''kafka error'' (Error ''down''),
      Pause (''identity__dev'', 0),
      GoProcessPartition (''identity__dev'', 0) [exMessage 0 ''a'' ''full'' []],
      Errorf ''kafka error'' (Error ''down''),
      Errorf ''error polling kafka'' (Error ''kafka error: down''), Sleep 612]"

section \<open>Subscription strings\<close>

text \<open>
  C8, as the code computes it. A global topic subscribes to its bare name, a pod-scoped
  topic to \<open>name__pod\<close> for each configured pod, in the order of the pods, and an
  org-scoped topic to the regular expression \<open>^name__pod__.+\<close> for each configured pod:
  anchored at the start, and with an org suffix of at least one character.
\<close>

theorem buildTopicRegexes_by_scope:
  "buildTopicRegexes \<lparr>scope = TopicScopeGlobal, name = n\<rparr> pods = [n]
   \<and> buildTopicRegexes \<lparr>scope = TopicScopePod, name = n\<rparr> pods = map (\<lambda>p. n @ ''__'' @ p) pods
   \<and> buildTopicRegexes \<lparr>scope = TopicScopeOrg, name = n\<rparr> pods
       = map (\<lambda>p. ''^'' @ n @ ''__'' @ p @ ''__.+'') pods
   \<and> length (buildTopicRegexes \<lparr>scope = TopicScopePod, name = n\<rparr> pods) = length pods
   \<and> length (buildTopicRegexes \<lparr>scope = TopicScopeOrg, name = n\<rparr> pods) = length pods"
  by (simp add: buildTopicRegexes_def TopicScopeGlobal_def TopicScopePod_def TopicScopeOrg_def)

text \<open>
  C8 as the specification words it gives the org-scoped entry as \<open>name__pod__.*\<close>. For the
  org-scoped topic \<open>identity\<close> and the pod \<open>dev\<close> the code returns \<open>^identity__dev__.+\<close>,
  which is another expression: it does not accept an empty org suffix.
\<close>

theorem buildTopicRegexes_org_counterexample:
  "buildTopicRegexes \<lparr>scope = TopicScopeOrg, name = ''identity''\<rparr> [''dev'']
     = [''^identity__dev__.+'']
   \<and> buildTopicRegexes \<lparr>scope = TopicScopeOrg, name = ''identity''\<rparr> [''dev'']
     \<noteq> [''identity__dev__.*'']"
  by (simp add: buildTopicRegexes_def TopicScopeGlobal_def TopicScopePod_def TopicScopeOrg_def)

section \<open>Headers and group routing\<close>

lemmas example_defs = exConsumer_def newKafkaEventConsumer_def exLibrary_def exConfig_def
  exMessage_def exPlaceholder_def exEvent_def exForeignEvent_def exUpperEvent_def
  exBadEvent_def exLostPlaceholder_def exHandler_def

lemmas header_defs = getHeader_def getHeaderBool_def ParseBool_def header_def
  HeaderKeyGroupID_def HeaderKeyIsCompactEvent_def EqualFold_def toLowerASCII_def isASCII_def

lemma ParseBool_empty: "ParseBool [] = None"
  by (simp add: ParseBool_def)

lemma getHeaderIn_absent:
  "\<forall>h \<in> set hs. \<not> EqualFold l (fst h) k \<Longrightarrow> getHeaderIn l hs k = []"
  by (induction hs) auto

lemma getHeaderIn_first:
  "\<forall>h \<in> set pre. \<not> EqualFold l (fst h) k \<Longrightarrow> EqualFold l k' k \<Longrightarrow>
   getHeaderIn l (pre @ (k', v) # post) k = v"
  by (induction pre) auto

lemma EqualFold_fold: "map toLowerASCII s = map toLowerASCII t \<Longrightarrow> EqualFold l s t"
  by (simp add: EqualFold_def)

lemma handleMessages_in_order:
  "handleMessages c handler msgs = concat (map (handleMessage c handler) msgs)"
  by (induction msgs) simp_all

lemma handlerInvoked_simps [simp]:
  "handlerInvoked [] = False"
  "handlerInvoked (HandleEvent t e r # es) = True"
  "handlerInvoked (LogErrorf s err # es) = handlerInvoked es"
  "handlerInvoked (LogWarnf s # es) = handlerInvoked es"
  "handlerInvoked (Panic # es) = handlerInvoked es"
  by (simp_all add: handlerInvoked_def)

section \<open>Large events\<close>

text \<open>
  C6. When the payload parses to an envelope, the compact-event header of the message reads
  as true, the envelope's \<open>ContentJSON\<close> parses to the object key \<open>K\<close> and \<open>Download\<close> returns
  the event \<open>E\<close> for \<open>K\<close>, then \<open>toEvent\<close> returns exactly \<open>E\<close>. When the message has no
  compact-event header, \<open>toEvent\<close> returns the event parsed from the payload itself.
\<close>

theorem toEvent_large_payload:
  "(jsonUnmarshalEvent (lib c) (Value msg) = Inr rawEvent
      \<longrightarrow> getHeaderBool (lib c) msg HeaderKeyIsCompactEvent
      \<longrightarrow> jsonUnmarshalString (lib c) (ContentJSON rawEvent) = Inr K
      \<longrightarrow> Download c K = Inr E
      \<longrightarrow> toEvent c msg = Inr E)
   \<and> (jsonUnmarshalEvent (lib c) (Value msg) = Inr rawEvent
      \<longrightarrow> (\<forall>h \<in> set (MsgHeaders msg). \<not> EqualFold (lib c) (fst h) HeaderKeyIsCompactEvent)
      \<longrightarrow> toEvent c msg = Inr rawEvent)"
  by (simp add: toEvent_def getHeaderBool_def getHeader_def getHeaderIn_absent ParseBool_empty)

lemma example_compact_header:
  "getHeaderBool (lib exConsumer) (exMessage 7 [] ''placeholder'' [(''IsCompactedEvent'', ''true'')])
     HeaderKeyIsCompactEvent"
  by (simp add: header_defs exMessage_def)

theorem toEvent_large_payload_witness:
  "toEvent exConsumer (exMessage 7 [] ''placeholder'' [(''IsCompactedEvent'', ''true'')])
     = Inr exEvent
   \<and> toEvent exConsumer (exMessage 8 [] ''full'' []) = Inr exEvent
   \<and> exEvent \<noteq> exPlaceholder"
  using toEvent_large_payload [where c = exConsumer
      and msg = "exMessage 7 [] ''placeholder'' [(''IsCompactedEvent'', ''true'')]"
      and rawEvent = exPlaceholder and K = "''identity/event-big-1.json''" and E = exEvent]
    toEvent_large_payload [where c = exConsumer and msg = "exMessage 8 [] ''full'' []"
      and rawEvent = exEvent]
    example_compact_header
  by (simp add: example_defs Download_def)

section \<open>Group routing\<close>

text \<open>
  C7. A message whose group header is present (its value is not empty) and does not match
  the configured group id under case folding is dropped at once: \<open>handleMessage\<close> does
  nothing at all. A resolved event whose own \<open>groupId\<close> header is present and does not match
  is not passed to the handler either; when the topic parses, the only effect is the
  warning. No branch returns or logs an error for the mismatch.
\<close>

theorem handleMessage_group_mismatch:
  "(getHeader (lib c) msg HeaderKeyGroupID \<noteq> []
      \<longrightarrow> \<not> EqualFold (lib c) (getHeader (lib c) msg HeaderKeyGroupID) (GroupID (config c))
      \<longrightarrow> handleMessage c handler msg = [])
   \<and> (toEvent c msg = Inr event
      \<longrightarrow> header event HeaderKeyGroupID \<noteq> []
      \<longrightarrow> \<not> EqualFold (lib c) (header event HeaderKeyGroupID) (GroupID (config c))
      \<longrightarrow> \<not> handlerInvoked (handleMessage c handler msg)
          \<and> (tpTopic msg = Some t \<longrightarrow> ParseTopic t = Inr topic \<longrightarrow>
               handleMessage c handler msg = []
               \<or> handleMessage c handler msg
                   = [LogWarnf (''skipping event targeted at group: ''
                                 @ header event HeaderKeyGroupID)]))"
  by (auto simp: handleMessage_def Let_def split: option.splits sum.splits)

theorem handleMessage_group_mismatch_witness:
  "handleMessage exConsumer exHandler (exMessage 1 [] ''foreign'' [(''GroupId'', ''Other'')]) = []
   \<and> handleMessage exConsumer exHandler (exMessage 1 [] ''foreign'' [])
       = [LogWarnf ''skipping event targeted at group: other'']"
  using handleMessage_group_mismatch [where c = exConsumer and handler = exHandler
      and msg = "exMessage 1 [] ''foreign'' [(''GroupId'', ''Other'')]"
      and event = exForeignEvent and t = "''identity__dev''"
      and topic = "podTopic ''identity'' ''dev''"]
    handleMessage_group_mismatch [where c = exConsumer and handler = exHandler
      and msg = "exMessage 1 [] ''foreign'' []"
      and event = exForeignEvent and t = "''identity__dev''"
      and topic = "podTopic ''identity'' ''dev''"]
  by (simp add: handleMessage_def toEvent_def ParseTopic_def header_defs example_defs)

text \<open>
  C10 as the specification words it fails in two places. A message without any group
  header, whose event carries \<open>groupId = other\<close>, is not delivered to the handler of the
  group \<open>svc\<close>: the second guard skips it. And the second guard reads the event's header
  under the exact name \<open>groupId\<close>: an event that carries \<open>GROUPID = other\<close> is delivered.
\<close>

theorem group_routing_counterexample:
  "getHeader (lib exConsumer) (exMessage 1 [] ''foreign'' []) HeaderKeyGroupID = []
   \<and> \<not> handlerInvoked (handleMessage exConsumer exHandler (exMessage 1 [] ''foreign'' []))
   \<and> toEvent exConsumer (exMessage 2 [] ''upper'' []) = Inr exUpperEvent
   \<and> Headers exUpperEvent ''GROUPID'' = Some ''other''
   \<and> \<not> EqualFold (lib exConsumer) ''other'' (GroupID (config exConsumer))
   \<and> handlerInvoked (handleMessage exConsumer exHandler (exMessage 2 [] ''upper'' []))"
  by (simp add: handleMessage_def toEvent_def ParseTopic_def header_defs example_defs)

text \<open>
  C10, as the code has it. \<open>getHeader\<close> returns the value of the first header of the message
  whose name matches under case folding, and the empty string when there is none. The
  event's header is read under the exact name \<open>groupId\<close>. At both guards the value is
  compared with the configured group id under case folding. A message whose group header
  is absent, empty or matching passes the first guard; it is delivered to the handler when
  its topic parses, its event resolves and the event's own \<open>groupId\<close> is absent, empty or
  matching.
\<close>

theorem group_routing_case_insensitive:
  "((\<forall>h \<in> set (MsgHeaders msg). \<not> EqualFold (lib c) (fst h) k) \<longrightarrow> getHeader (lib c) msg k = [])
   \<and> (MsgHeaders msg = pre @ (k', v) # post \<longrightarrow> (\<forall>h \<in> set pre. \<not> EqualFold (lib c) (fst h) k)
        \<longrightarrow> map toLowerASCII k' = map toLowerASCII k \<longrightarrow> getHeader (lib c) msg k = v)
   \<and> (getHeader (lib c) msg HeaderKeyGroupID = []
         \<or> map toLowerASCII (getHeader (lib c) msg HeaderKeyGroupID) = map toLowerASCII (GroupID (config c))
        \<longrightarrow> tpTopic msg = Some t \<longrightarrow> ParseTopic t = Inr topic \<longrightarrow> toEvent c msg = Inr event
        \<longrightarrow> header event HeaderKeyGroupID = []
             \<or> map toLowerASCII (header event HeaderKeyGroupID)
                 = map toLowerASCII (GroupID (config c))
        \<longrightarrow> handlerInvoked (handleMessage c handler msg)
            \<and> hd (handleMessage c handler msg) = HandleEvent topic event (handler topic event))
   \<and> header event HeaderKeyGroupID = (case Headers event ''groupId'' of None \<Rightarrow> [] | Some g \<Rightarrow> g)"
proof -
  have 1: "(\<forall>h \<in> set (MsgHeaders msg). \<not> EqualFold (lib c) (fst h) k) \<longrightarrow> getHeader (lib c) msg k = []"
    by (simp add: getHeader_def getHeaderIn_absent)
  have 2: "MsgHeaders msg = pre @ (k', v) # post \<longrightarrow> (\<forall>h \<in> set pre. \<not> EqualFold (lib c) (fst h) k)
        \<longrightarrow> map toLowerASCII k' = map toLowerASCII k \<longrightarrow> getHeader (lib c) msg k = v"
    by (simp add: getHeader_def getHeaderIn_first EqualFold_fold)
  have 3: "getHeader (lib c) msg HeaderKeyGroupID = []
         \<or> map toLowerASCII (getHeader (lib c) msg HeaderKeyGroupID) = map toLowerASCII (GroupID (config c))
        \<longrightarrow> tpTopic msg = Some t \<longrightarrow> ParseTopic t = Inr topic \<longrightarrow> toEvent c msg = Inr event
        \<longrightarrow> header event HeaderKeyGroupID = []
             \<or> map toLowerASCII (header event HeaderKeyGroupID)
                 = map toLowerASCII (GroupID (config c))
        \<longrightarrow> handlerInvoked (handleMessage c handler msg)
            \<and> hd (handleMessage c handler msg) = HandleEvent topic event (handler topic event)"
    by (auto simp: handleMessage_def Let_def EqualFold_fold)
  have 4: "header event HeaderKeyGroupID
             = (case Headers event ''groupId'' of None \<Rightarrow> [] | Some g \<Rightarrow> g)"
    by (simp add: header_def HeaderKeyGroupID_def)
  from 1 2 3 4 show ?thesis by blast
qed

theorem group_routing_case_insensitive_witness:
  "getHeader (lib exConsumer) (exMessage 1 [] ''full'' []) ''groupId'' = []
   \<and> getHeader (lib exConsumer) (exMessage 1 [] ''full'' [(''pod'', ''dev''), (''GROUPID'', ''SVC'')]) ''groupId''
       = ''SVC''
   \<and> handlerInvoked (handleMessage exConsumer exHandler
        (exMessage 1 [] ''full'' [(''pod'', ''dev''), (''GROUPID'', ''SVC'')]))"
  using group_routing_case_insensitive [where msg = "exMessage 1 [] ''full'' []"
      and k = "''groupId''"]
    group_routing_case_insensitive [where
      msg = "exMessage 1 [] ''full'' [(''pod'', ''dev''), (''GROUPID'', ''SVC'')]"
      and k = "''groupId''" and pre = "[(''pod'', ''dev'')]" and k' = "''GROUPID''"
      and v = "''SVC''" and post = "[]" and c = exConsumer and t = "''identity__dev''"
      and topic = "podTopic ''identity'' ''dev''" and event = exEvent and handler = exHandler]
  by (simp add: handleMessage_def toEvent_def ParseTopic_def header_defs example_defs)

section \<open>The upload threshold\<close>

lemma sint_sub_100000:
  assumes "- (2 ^ 63) + 100000 \<le> sint (M :: 64 word)"
  shows "sint (M - 100000) = sint M - 100000"
proof -
  have ub: "sint M < 2 ^ 63" using sint_lt [of M] by simp
  have "sint (M - 100000) = signed_take_bit 63 (sint M - sint (100000 :: 64 word))"
    by (simp add: sint_word_ariths)
  also have "sint (100000 :: 64 word) = 100000" by simp
  also have "signed_take_bit 63 (sint M - 100000) = sint M - 100000"
    using assms ub by (intro signed_take_bit_int_eq_self) simp_all
  finally show ?thesis .
qed

text \<open>
  C9. The uploader of a publisher is configured with the bucket of the configuration and
  with the threshold \<open>MessageMaxBytes - 100000\<close>, replaced by 0 when negative: the threshold
  is never negative, it is the larger of 0 and Go's difference, and that difference is the
  difference of the integers whenever the subtraction does not wrap around (from
  \<open>- 2^63 + 100000\<close> on). \<open>ShouldUpload\<close> is true exactly when the bucket is set, the event
  is not nil and the length of its JSON exceeds the threshold.
\<close>

theorem upload_threshold:
  "NewPublisher newProducer cfg = Inr uc \<Longrightarrow>
     bucket uc = PublisherConfig.ExternalBucket cfg
   \<and> 0 \<le> sint (uploadThreshold uc)
   \<and> sint (uploadThreshold uc) = max 0 (sint (MessageMaxBytes cfg - 100000))
   \<and> (- (2 ^ 63) + 100000 \<le> sint (MessageMaxBytes cfg)
        \<longrightarrow> sint (uploadThreshold uc) = max 0 (sint (MessageMaxBytes cfg) - 100000))
   \<and> (ShouldUpload jsonMarshal uc event
        \<longleftrightarrow> bucket uc \<noteq> [] \<and> event \<noteq> None
            \<and> sint (uploadThreshold uc)
                < int (length (case jsonMarshal (the event) of
                                 Inl err \<Rightarrow> [] | Inr bytes \<Rightarrow> bytes)))"
proof -
  assume a: "NewPublisher newProducer cfg = Inr uc"
  let ?t = "MessageMaxBytes cfg - 100000"
  from a have uc: "uc = \<lparr>bucket = PublisherConfig.ExternalBucket cfg,
                         uploadThreshold = (if ?t <s 0 then 0 else ?t)\<rparr>"
    by (auto simp: NewPublisher_def Let_def split: option.splits if_splits)
  have 1: "bucket uc = PublisherConfig.ExternalBucket cfg" by (simp add: uc)
  have 2: "0 \<le> sint (uploadThreshold uc)" by (simp add: uc word_sless_alt)
  have 3: "sint (uploadThreshold uc) = max 0 (sint ?t)"
    by (simp add: uc word_sless_alt max_def)
  have 4: "sint (uploadThreshold uc) = max 0 (sint (MessageMaxBytes cfg) - 100000)"
    if "- (2 ^ 63) + 100000 \<le> sint (MessageMaxBytes cfg)"
    using sint_sub_100000 [OF that] by (simp add: 3)
  have 5: "ShouldUpload jsonMarshal uc event
        \<longleftrightarrow> bucket uc \<noteq> [] \<and> event \<noteq> None
            \<and> sint (uploadThreshold uc)
                < int (length (case jsonMarshal (the event) of
                                 Inl err \<Rightarrow> [] | Inr bytes \<Rightarrow> bytes))"
    by (cases event) (simp_all add: ShouldUpload_def Let_def)
  from 1 2 3 4 5 show ?thesis by blast
qed

theorem upload_threshold_witness:
  "NewPublisher (\<lambda>cfg. None) exPublisherConfig = Inr \<lparr>bucket = ''bucket'', uploadThreshold = 10\<rparr>
   \<and> ShouldUpload exMarshal \<lparr>bucket = ''bucket'', uploadThreshold = 10\<rparr> (Some exLongEvent)
   \<and> \<not> ShouldUpload exMarshal \<lparr>bucket = ''bucket'', uploadThreshold = 10\<rparr> (Some exShortEvent)
   \<and> sint (10 :: 64 word) = max 0 (100010 - 100000)"
  using upload_threshold [where newProducer = "\<lambda>cfg. None" and cfg = exPublisherConfig
      and uc = "\<lparr>bucket = ''bucket'', uploadThreshold = 10\<rparr>" and jsonMarshal = exMarshal
      and event = "Some exLongEvent"]
    upload_threshold [where newProducer = "\<lambda>cfg. None" and cfg = exPublisherConfig
      and uc = "\<lparr>bucket = ''bucket'', uploadThreshold = 10\<rparr>" and jsonMarshal = exMarshal
      and event = "Some exShortEvent"]
  by (simp add: NewPublisher_def exPublisherConfig_def exMarshal_def exLongEvent_def
      exShortEvent_def word_sless_alt)

section \<open>Key runs\<close>

lemma map_fst_appendByKey:
  "map fst (appendByKey b k x) = (if k \<in> fst ` set b then map fst b else map fst b @ [k])"
  by (induction b k x rule: appendByKey.induct) auto

lemma map_of_appendByKey:
  "map_of (appendByKey b k x) k' =
     (if k' = k then Some ((case map_of b k of None \<Rightarrow> [] | Some r \<Rightarrow> r) @ [x]) else map_of b k')"
  by (induction b k x rule: appendByKey.induct) auto

lemma mset_concat_appendByKey:
  "mset (concat (map snd (appendByKey b k x))) = mset (concat (map snd b)) + {#x#}"
  by (induction b k x rule: appendByKey.induct) auto

lemma groupedBy_empty: "groupedBy [] []"
  by (simp add: groupedBy_def)

lemma filter_key_absent: "k \<notin> Key ` set xs \<Longrightarrow> filter (\<lambda>m. Key m = k) xs = []"
  by (induction xs) auto

lemma groupedBy_append:
  assumes "groupedBy b xs"
  shows "groupedBy (appendByKey b (Key m) m) (xs @ [m])"
proof -
  from assms have d: "distinct (map fst b)"
    and g: "\<And>k. map_of b k = (if k \<in> Key ` set xs then Some (filter (\<lambda>m. Key m = k) xs) else None)"
    by (simp_all add: groupedBy_def)
  have dom: "fst ` set b = Key ` set xs"
  proof -
    have "k \<in> fst ` set b \<longleftrightarrow> k \<in> Key ` set xs" for k
      using g [of k] map_of_eq_None_iff [of b k] by (auto split: if_splits)
    then show ?thesis by blast
  qed
  have 1: "distinct (map fst (appendByKey b (Key m) m))"
    using d by (simp add: map_fst_appendByKey)
  have 2: "map_of (appendByKey b (Key m) m) k =
      (if k \<in> Key ` set (xs @ [m]) then Some (filter (\<lambda>m. Key m = k) (xs @ [m])) else None)" for k
    using g [of k] by (auto simp: map_of_appendByKey filter_key_absent)
  from 1 2 show ?thesis unfolding groupedBy_def by blast
qed

lemma partitionLoop_out:
  "fst (partitionLoop b ms) = map (\<lambda>m. [m]) (filter (\<lambda>m. Key m = []) ms)"
  by (induction b ms rule: partitionLoop.induct) (auto split: prod.splits)

lemma partitionLoop_grouped:
  "groupedBy b xs \<Longrightarrow> (\<forall>m \<in> set xs. Key m \<noteq> []) \<Longrightarrow>
   groupedBy (snd (partitionLoop b ms)) (xs @ filter (\<lambda>m. Key m \<noteq> []) ms)"
proof (induction b ms arbitrary: xs rule: partitionLoop.induct)
  case (1 byKey)
  then show ?case by simp
next
  case (2 byKey msg messages)
  show ?case
  proof (cases "Key msg = []")
    case True
    with 2 show ?thesis by (auto split: prod.splits)
  next
    case False
    have "groupedBy (appendByKey byKey (Key msg) msg) (xs @ [msg])"
      using 2(3) by (rule groupedBy_append)
    moreover have "\<forall>m \<in> set (xs @ [msg]). Key m \<noteq> []" using 2(4) False by simp
    ultimately have "groupedBy (snd (partitionLoop (appendByKey byKey (Key msg) msg) messages))
        ((xs @ [msg]) @ filter (\<lambda>m. Key m \<noteq> []) messages)"
      using 2(2) [OF False] by blast
    with False show ?thesis by simp
  qed
qed

lemma partitionLoop_mset:
  "mset (concat (map snd (snd (partitionLoop b ms))))
     = mset (concat (map snd b)) + mset (filter (\<lambda>m. Key m \<noteq> []) ms)"
  by (induction b ms rule: partitionLoop.induct)
     (auto split: prod.splits simp: mset_concat_appendByKey)

lemma mset_concat_perm:
  assumes "mset xs = mset ys"
  shows "mset (concat (map f xs)) = mset (concat (map f ys))"
proof -
  have "mset (concat (map f zs)) = sum_mset (image_mset (mset \<circ> f) (mset zs))" for zs
    by (induction zs) simp_all
  with assms show ?thesis by simp
qed

lemma filter_map_snd_unique:
  "distinct (map fst b) \<Longrightarrow> map_of b k = Some r \<Longrightarrow>
   (\<forall>e \<in> set b. Q (snd e) \<longleftrightarrow> fst e = k) \<Longrightarrow> filter Q (map snd b) = [r]"
proof (induction b)
  case Nil
  then show ?case by simp
next
  case (Cons e b)
  show ?case
  proof (cases "fst e = k")
    case True
    then have "k \<notin> fst ` set b" using Cons.prems(1) by auto
    then have "\<forall>e' \<in> set b. \<not> Q (snd e')" using Cons.prems(3) by auto
    then have "filter Q (map snd b) = []" by (induction b) auto
    moreover have "snd e = r" using True Cons.prems(2) by (cases e) auto
    moreover have "Q (snd e)" using True Cons.prems(3) by simp
    ultimately show ?thesis by simp
  next
    case False
    then have "map_of b k = Some r" using Cons.prems(2) by (cases e) (auto split: if_splits)
    moreover have "\<not> Q (snd e)" using False Cons.prems(3) by simp
    ultimately show ?thesis using Cons by simp
  qed
qed

lemma groupedBy_entry:
  assumes "groupedBy b xs" and "(k, r) \<in> set b"
  shows "k \<in> Key ` set xs \<and> r = filter (\<lambda>m. Key m = k) xs"
proof -
  from assms have "distinct (map fst b)" by (simp add: groupedBy_def)
  with assms(2) have "map_of b k = Some r" by (rule map_of_is_SomeI [rotated])
  moreover from assms(1)
  have "map_of b k = (if k \<in> Key ` set xs then Some (filter (\<lambda>m. Key m = k) xs) else None)"
    by (simp add: groupedBy_def)
  ultimately show ?thesis by (auto split: if_splits)
qed

lemma filter_key_nonempty: "k \<in> Key ` set xs \<Longrightarrow> filter (\<lambda>m. Key m = k) xs \<noteq> []"
  by (induction xs) auto

lemma filter_none: "\<forall>x \<in> set xs. \<not> P x \<Longrightarrow> filter P xs = []"
  by (induction xs) auto

lemma filter_all: "\<forall>x \<in> set xs. P x \<Longrightarrow> filter P xs = xs"
  by (induction xs) auto

lemma writePartitionedMessages_runs:
  assumes perm: "visitsEachEntryOnce rangeOrder"
  shows "mset (concat (writePartitionedMessages rangeOrder messages)) = mset messages
    \<and> filter (\<lambda>r. \<exists>m \<in> set r. Key m = []) (writePartitionedMessages rangeOrder messages)
        = map (\<lambda>m. [m]) (filter (\<lambda>m. Key m = []) messages)
    \<and> (\<forall>k. k \<noteq> [] \<longrightarrow> k \<in> Key ` set messages \<longrightarrow>
          filter (\<lambda>r. \<exists>m \<in> set r. Key m = k) (writePartitionedMessages rangeOrder messages)
            = [filter (\<lambda>m. Key m = k) messages])
    \<and> [] \<notin> set (writePartitionedMessages rangeOrder messages)"
proof -
  define out where "out = fst (partitionLoop [] messages)"
  define byKey where "byKey = snd (partitionLoop [] messages)"
  define keyed where "keyed = filter (\<lambda>m. Key m \<noteq> []) messages"
  define runs where "runs = writePartitionedMessages rangeOrder messages"
  have runs: "runs = out @ map snd (rangeOrder byKey)"
    by (simp add: runs_def writePartitionedMessages_def out_def byKey_def split: prod.splits)
  have out: "out = map (\<lambda>m. [m]) (filter (\<lambda>m. Key m = []) messages)"
    by (simp add: out_def partitionLoop_out)
  have G: "groupedBy byKey keyed"
    using partitionLoop_grouped [OF groupedBy_empty, of messages] by (simp add: byKey_def keyed_def)
  have P: "mset (rangeOrder byKey) = mset byKey"
    using perm by (simp add: visitsEachEntryOnce_def)
  have S: "set (rangeOrder byKey) = set byKey" using P by (rule mset_eq_setD)
  have group: "filter (\<lambda>m. Key m = k) keyed = filter (\<lambda>m. Key m = k) messages" if "k \<noteq> []" for k
    using that unfolding keyed_def by (induction messages) auto
  have entry: "k \<noteq> [] \<and> k \<in> Key ` set messages \<and> r = filter (\<lambda>m. Key m = k) messages \<and> r \<noteq> []"
    if "(k, r) \<in> set byKey" for k r
  proof -
    from groupedBy_entry [OF G that]
    have k: "k \<in> Key ` set keyed" and r: "r = filter (\<lambda>m. Key m = k) keyed" by simp_all
    from k have k0: "k \<noteq> []" and km: "k \<in> Key ` set messages" by (auto simp: keyed_def)
    from r k show ?thesis using k0 km group [OF k0] filter_key_nonempty [OF k] by simp
  qed
  have A: "mset (concat runs) = mset messages"
  proof -
    have "mset (concat (map snd (rangeOrder byKey))) = mset (concat (map snd byKey))"
      using P by (rule mset_concat_perm)
    also have "\<dots> = mset keyed"
      using partitionLoop_mset [of "[]" messages] by (simp add: byKey_def keyed_def)
    finally have "mset (concat runs)
        = mset (filter (\<lambda>m. Key m = []) messages) + mset (filter (\<lambda>m. Key m \<noteq> []) messages)"
      by (simp add: runs out keyed_def comp_def)
    then show ?thesis using multiset_partition [of "mset messages" "\<lambda>m. Key m = []"] by simp
  qed
  have keyedRuns: "r \<noteq> [] \<and> (\<forall>m \<in> set r. Key m \<noteq> [])" if "r \<in> set (map snd (rangeOrder byKey))" for r
  proof -
    from that S obtain k where "(k, r) \<in> set byKey" by auto
    from entry [OF this] show ?thesis by auto
  qed
  have B: "filter (\<lambda>r. \<exists>m \<in> set r. Key m = []) runs
             = map (\<lambda>m. [m]) (filter (\<lambda>m. Key m = []) messages)"
  proof -
    have "filter (\<lambda>r. \<exists>m \<in> set r. Key m = []) out = out"
      by (rule filter_all) (auto simp: out)
    moreover have "filter (\<lambda>r. \<exists>m \<in> set r. Key m = []) (map snd (rangeOrder byKey)) = []"
      by (rule filter_none) (use keyedRuns in blast)
    ultimately show ?thesis by (simp add: runs out)
  qed
  have C: "filter (\<lambda>r. \<exists>m \<in> set r. Key m = k) runs = [filter (\<lambda>m. Key m = k) messages]"
    if k0: "k \<noteq> []" and km: "k \<in> Key ` set messages" for k
  proof -
    let ?Q = "\<lambda>r. \<exists>m \<in> set r. Key m = k"
    have 1: "filter ?Q out = []"
      by (rule filter_none) (use k0 in \<open>auto simp: out\<close>)
    have kk: "k \<in> Key ` set keyed" using k0 km by (auto simp: keyed_def)
    have mo: "map_of byKey k = Some (filter (\<lambda>m. Key m = k) messages)"
      using G kk group [OF k0] by (simp add: groupedBy_def)
    have q: "\<forall>e \<in> set byKey. ?Q (snd e) \<longleftrightarrow> fst e = k"
    proof
      fix e assume e: "e \<in> set byKey"
      obtain k' r where kr: "e = (k', r)" by (cases e)
      from e kr have "(k', r) \<in> set byKey" by simp
      from entry [OF this] have r: "r = filter (\<lambda>m. Key m = k') messages" and rn: "r \<noteq> []"
        by blast+
      from rn obtain m where "m \<in> set r" by (cases r) auto
      with r show "?Q (snd e) \<longleftrightarrow> fst e = k" by (auto simp: kr)
    qed
    have d: "distinct (map fst byKey)" using G by (simp add: groupedBy_def)
    have 2: "filter ?Q (map snd byKey) = [filter (\<lambda>m. Key m = k) messages]"
      using d mo q by (rule filter_map_snd_unique)
    have "mset (filter ?Q (map snd (rangeOrder byKey))) = mset (filter ?Q (map snd byKey))"
      using P by simp
    then have "filter ?Q (map snd (rangeOrder byKey)) = [filter (\<lambda>m. Key m = k) messages]"
      by (simp only: 2 mset.simps mset_single_iff add_mset_commute)
    with 1 show ?thesis by (simp add: runs)
  qed
  have D: "[] \<notin> set runs"
    using keyedRuns by (auto simp: runs out)
  from A B C D show ?thesis unfolding runs_def by blast
qed

text \<open>
  C2. Whatever the order in which the map is traversed, the runs that
  \<open>writePartitionedMessages\<close> writes partition the input: the messages of all runs together
  are the input messages, each once; the runs that hold a message without key are the
  singleton runs of those messages, one for each, in input order; for each non-empty key
  of the input there is exactly one run with a message of that key, and it consists of
  all messages of that key in input order; no run is empty.
\<close>

theorem writePartitionedMessages_partitions:
  assumes perm: "visitsEachEntryOnce rangeOrder"
  shows "mset (concat (writePartitionedMessages rangeOrder messages)) = mset messages
    \<and> filter (\<lambda>r. \<exists>m \<in> set r. Key m = []) (writePartitionedMessages rangeOrder messages)
        = map (\<lambda>m. [m]) (filter (\<lambda>m. Key m = []) messages)
    \<and> (\<forall>k. k \<noteq> [] \<longrightarrow> k \<in> Key ` set messages \<longrightarrow>
          filter (\<lambda>r. \<exists>m \<in> set r. Key m = k) (writePartitionedMessages rangeOrder messages)
            = [filter (\<lambda>m. Key m = k) messages])
    \<and> [] \<notin> set (writePartitionedMessages rangeOrder messages)"
  using perm by (rule writePartitionedMessages_runs)

theorem writePartitionedMessages_partitions_witness:
  "visitsEachEntryOnce (rev :: (string, kafkaMessage) mapRange)
   \<and> writePartitionedMessages rev exBatch
     = [[exMessage 2 [] ''full'' []],
        [exMessage 1 ''b'' ''bad'' [], exMessage 4 ''b'' ''full'' []],
        [exMessage 0 ''a'' ''full'' [], exMessage 3 ''a'' ''foreign'' []]]
   \<and> mset (concat (writePartitionedMessages rev exBatch)) = mset exBatch"
  using writePartitionedMessages_partitions [of rev exBatch]
  by (simp add: visitsEachEntryOnce_def writePartitionedMessages_def exBatch_def exMessage_def)

section \<open>Executions of processPartition\<close>



lemma handledOf_map_Handled: "handledOf (map (\<lambda>m. Handled m (f m)) xs) = xs"
  by (induction xs) simp_all

lemma handledOf_map_Stored: "handledOf (map Stored xs) = []"
  by (induction xs) simp_all


















lemma exMessage_sel [simp]:
  "Key (exMessage off k v hs) = k"
  "Value (exMessage off k v hs) = v"
  "MsgHeaders (exMessage off k v hs) = hs"
  "tpTopic (exMessage off k v hs) = Some ''identity__dev''"
  by (simp_all add: exMessage_def)







section \<open>Failures of single records\<close>








section \<open>Runs of the poll loop\<close>

declare runLoop.simps [simp del]
declare pollBatches.simps [simp del]

lemma sleepsOf_append: "sleepsOf (xs @ ys) = sleepsOf xs @ sleepsOf ys"
  by (induction xs rule: sleepsOf.induct) simp_all

lemma pollLoop_actions:
  "pollLoop limit batch acts script = Some (r, acts', rest) \<Longrightarrow>
   \<exists>p. acts' = acts @ p \<and> sleepsOf p = []"
proof (induction limit batch acts script rule: pollLoop.induct)
  case (1 limit batch acts)
  then show ?case by (auto split: if_splits)
next
  case (2 limit batch acts rest)
  then show ?case by (auto split: if_splits)
next
  case (3 limit batch acts rest)
  then show ?case by (auto split: if_splits)
next
  case (4 limit batch acts ev rest')
  show ?case
  proof (cases "messageCount batch < limit")
    case False
    with 4(8) show ?thesis by auto
  next
    case True
    show ?thesis
    proof (cases ev)
      case (AssignedPartitions x)
      with True 4(1) [of x] 4(8) obtain p where
        "acts' = (acts @ Infof ''assigned partitions'' # Assign
                 # (case x of None \<Rightarrow> [] | Some err \<Rightarrow> [Errorf ''error assigning partitions'' err])) @ p"
        "sleepsOf p = []" by auto
      then show ?thesis by (auto split: option.splits simp: sleepsOf_append)
    next
      case (RevokedPartitions x)
      with True 4(2) [of x] 4(8) obtain p where
        "acts' = (acts @ eventConsumerPartitionsRevokedFreq_Inc # Infof ''revoked partitions'' # Unassign
                 # (case x of None \<Rightarrow> [] | Some err \<Rightarrow> [Errorf ''error revoking partitions'' err])) @ p"
        "sleepsOf p = []" by auto
      then show ?thesis by (auto split: option.splits simp: sleepsOf_append)
    next
      case (Message msg)
      show ?thesis
      proof (cases "tpError msg")
        case (Some e)
        with True Message 4(5) [of msg e] 4(8) obtain p where
          "acts' = (acts @ [Errorf ''topic partition error'' (Error e)]) @ p"
          "sleepsOf p = []" by auto
        then show ?thesis by auto
      next
        case None
        show ?thesis
        proof (cases "addMessage batch msg")
          case (Inl err)
          with True Message None 4(3) [of msg err] 4(8) obtain p where
            "acts' = (acts @ [Warnf ''error adding message to batch'' err]) @ p"
            "sleepsOf p = []" by auto
          then show ?thesis by auto
        next
          case (Inr b')
          with True Message None 4(4) [of msg b'] 4(8) show ?thesis by auto
        qed
      qed
    next
      case (KafkaError e)
      with True 4(8) show ?thesis by (auto split: if_splits)
    next
      case (Stats st)
      with True 4(6) [of st] 4(8) obtain p where
        "acts' = (acts @ [GoReportConsumerLag st]) @ p" "sleepsOf p = []" by auto
      then show ?thesis by auto
    next
      case OtherEvent
      with True 4(7) 4(8) show ?thesis by auto
    qed
  qed
qed


lemma pollBatch_actions:
  "pollBatch c script = Some (r, pacts, rest) \<Longrightarrow> sleepsOf pacts = []"
  using pollLoop_actions [of "batchSize c" newMessageBatch "[]" script r pacts rest]
  by (auto simp: pollBatch_def)

lemma dispatch_actions:
  "dispatch c entries = (dacts, r) \<Longrightarrow> sleepsOf dacts = []"
  by (induction c entries arbitrary: dacts r rule: dispatch.induct)
     (auto split: option.splits prod.splits)

lemma length_concat_appendByKey:
  "length (concat (map snd (appendByKey b k x))) = Suc (length (concat (map snd b)))"
proof -
  have "size (mset (concat (map snd (appendByKey b k x)))) = size (mset (concat (map snd b)) + {#x#})"
    by (simp only: mset_concat_appendByKey)
  then show ?thesis by simp
qed

lemma batchInv_new: "batchInv newMessageBatch"
  by (simp add: batchInv_def newMessageBatch_def)

lemma batchInv_addMessage: "batchInv b \<Longrightarrow> addMessage b msg = Inr b' \<Longrightarrow> batchInv b'"
  by (auto simp: batchInv_def addMessage_def length_concat_appendByKey split: sum.splits)

lemma addMessage_valid:
  "tpTopic msg = Some t \<Longrightarrow>
   addMessage b msg = Inr (b\<lparr>batchMessages := appendByKey (batchMessages b) (t, tpPartition msg) msg,
                              messageCount := messageCount b + 1\<rparr>)"
  by (simp add: addMessage_def newTopicPartition_def)

lemma pollLoop_result:
  "pollLoop limit batch acts script = Some ((batch', r), acts', rest) \<Longrightarrow> batchInv batch \<Longrightarrow>
   batchInv batch'
   \<and> length rest \<le> length script
   \<and> (messageCount batch' \<noteq> messageCount batch \<longrightarrow> length rest < length script)
   \<and> (r \<noteq> None \<longrightarrow> r \<noteq> Some Canceled \<longrightarrow> messageCount batch' = 0)"
proof (induction limit batch acts script rule: pollLoop.induct)
  case (1 limit batch acts)
  then show ?case by (auto split: if_splits)
next
  case (2 limit batch acts rest)
  then show ?case by (auto split: if_splits)
next
  case (3 limit batch acts rest)
  then show ?case by (auto split: if_splits)
next
  case (4 limit batch acts ev rest')
  note run = 4(8) and inv = 4(9)
  show ?case
  proof (cases "messageCount batch < limit")
    case False
    with run show ?thesis using inv by auto
  next
    case True
    show ?thesis
    proof (cases ev)
      case (AssignedPartitions x)
      with True 4(1) [of x] run inv show ?thesis by auto
    next
      case (RevokedPartitions x)
      with True 4(2) [of x] run inv show ?thesis by auto
    next
      case (Message msg)
      show ?thesis
      proof (cases "tpError msg")
        case (Some e)
        with True Message 4(5) [of msg e] run inv show ?thesis by auto
      next
        case None
        show ?thesis
        proof (cases "addMessage batch msg")
          case (Inl err)
          with True Message None 4(3) [of msg err] run inv show ?thesis by auto
        next
          case (Inr b')
          from batchInv_addMessage [OF inv Inr] have i': "batchInv b'" .
          from True Message None Inr run
          have "pollLoop limit b' acts rest' = Some ((batch', r), acts', rest)" by simp
          from 4(4) [OF _ Message None Inr this i'] True
          show ?thesis by auto
        qed
      qed
    next
      case (KafkaError e)
      from inv have "0 \<le> messageCount batch" by (simp add: batchInv_def)
      with KafkaError True run inv show ?thesis by (auto split: if_splits)
    next
      case (Stats st)
      with True 4(6) [of st] run inv show ?thesis by auto
    next
      case OtherEvent
      with True 4(7) run inv show ?thesis by auto
    qed
  qed
qed

lemma pollLoop_messages:
  assumes "\<forall>m \<in> set msgs. tpError m = None \<and> tpTopic m \<noteq> None"
    and "messageCount b + int (length msgs) \<le> limit"
  shows "pollLoop limit b acts (map (\<lambda>m. Polled (Some (Message m))) msgs @ tail)
           = pollLoop limit (addMessages b msgs) acts tail
         \<and> messageCount (addMessages b msgs) = messageCount b + int (length msgs)
         \<and> mset (concat (map snd (batchMessages (addMessages b msgs))))
             = mset (concat (map snd (batchMessages b))) + mset msgs"
  using assms
proof (induction msgs arbitrary: b)
  case Nil
  then show ?case by (simp add: addMessages_def)
next
  case (Cons m msgs)
  from Cons.prems(1) obtain t where t: "tpTopic m = Some t" and e: "tpError m = None" by auto
  let ?b = "b\<lparr>batchMessages := appendByKey (batchMessages b) (t, tpPartition m) m,
               messageCount := messageCount b + 1\<rparr>"
  have am: "addMessage b m = Inr ?b" using t by (rule addMessage_valid)
  have lt: "messageCount b < limit" using Cons.prems(2) by simp
  have step: "pollLoop limit b acts (Polled (Some (Message m)) # rest) = pollLoop limit ?b acts rest"
    for rest using lt e am by simp
  have fold: "addMessages b (m # msgs) = addMessages ?b msgs"
    by (simp add: addMessages_def am)
  have "\<forall>m \<in> set msgs. tpError m = None \<and> tpTopic m \<noteq> None" using Cons.prems(1) by simp
  moreover have "messageCount ?b + int (length msgs) \<le> limit" using Cons.prems(2) by simp
  ultimately have IH: "pollLoop limit ?b acts (map (\<lambda>m. Polled (Some (Message m))) msgs @ tail)
           = pollLoop limit (addMessages ?b msgs) acts tail
         \<and> messageCount (addMessages ?b msgs) = messageCount ?b + int (length msgs)
         \<and> mset (concat (map snd (batchMessages (addMessages ?b msgs))))
             = mset (concat (map snd (batchMessages ?b))) + mset msgs"
    by (rule Cons.IH)
  have 1: "pollLoop limit b acts (map (\<lambda>m. Polled (Some (Message m))) (m # msgs) @ tail)
      = pollLoop limit (addMessages b (m # msgs)) acts tail"
    using IH step [of "map (\<lambda>m. Polled (Some (Message m))) msgs @ tail"]
    by (simp only: list.map append_Cons fold)
  have 2: "messageCount (addMessages b (m # msgs)) = messageCount b + int (length (m # msgs))"
    using IH by (simp add: fold)
  have 3: "mset (concat (map snd (batchMessages (addMessages b (m # msgs)))))
             = mset (concat (map snd (batchMessages b))) + mset (m # msgs)"
    using IH by (simp add: fold mset_concat_appendByKey)
  from 1 2 3 show ?case by blast
qed

lemma dispatch_all:
  "\<forall>e \<in> set entries. consumerPause (lib c) (fst e) = None \<Longrightarrow>
   dispatch c entries
     = (concat (map (\<lambda>e. [Pause (fst e), GoProcessPartition (fst e) (snd e)]) entries), None)"
  by (induction c entries rule: dispatch.induct) auto

lemma pollBatch_error_empty:
  assumes "pollBatch c script = Some ((batch', Some err), pacts, rest')" and "err \<noteq> Canceled"
  shows "messageCount batch' = 0 \<and> concat (map snd (batchMessages batch')) = []"
proof -
  from assms(1) have "pollLoop (batchSize c) newMessageBatch [] script
      = Some ((batch', Some err), pacts, rest')" by (simp add: pollBatch_def)
  from pollLoop_result [OF this batchInv_new] assms(2)
  have "batchInv batch'" and "messageCount batch' = 0" by simp_all
  then show ?thesis by (simp add: batchInv_def)
qed

lemma pollBatch_partial:
  assumes valid: "\<forall>m \<in> set msgs. tpError m = None \<and> tpTopic m \<noteq> None"
    and lt: "int (length msgs) < batchSize c"
  shows "pollBatch c (map (\<lambda>m. Polled (Some (Message m))) msgs
                       @ Polled (Some (KafkaError e)) # rest)
          = Some ((addMessages newMessageBatch msgs,
                   if msgs = [] then Some (Error (''kafka error: '' @ e)) else None),
                  [Errorf ''kafka error'' (Error e)], rest)
        \<and> messageCount (addMessages newMessageBatch msgs) = int (length msgs)
        \<and> mset (concat (map snd (batchMessages (addMessages newMessageBatch msgs)))) = mset msgs"
proof -
  have le: "messageCount newMessageBatch + int (length msgs) \<le> batchSize c"
    using lt by (simp add: newMessageBatch_def)
  from pollLoop_messages [OF valid le, of "[]" "Polled (Some (KafkaError e)) # rest"]
  have 1: "pollLoop (batchSize c) newMessageBatch []
             (map (\<lambda>m. Polled (Some (Message m))) msgs @ Polled (Some (KafkaError e)) # rest)
           = pollLoop (batchSize c) (addMessages newMessageBatch msgs) []
               (Polled (Some (KafkaError e)) # rest)"
    and 2: "messageCount (addMessages newMessageBatch msgs) = int (length msgs)"
    and 3: "mset (concat (map snd (batchMessages (addMessages newMessageBatch msgs)))) = mset msgs"
    by (simp_all add: newMessageBatch_def)
  have "pollLoop (batchSize c) (addMessages newMessageBatch msgs) []
               (Polled (Some (KafkaError e)) # rest)
        = Some ((addMessages newMessageBatch msgs,
                   if msgs = [] then Some (Error (''kafka error: '' @ e)) else None),
                  [Errorf ''kafka error'' (Error e)], rest)"
    using lt by (simp add: 2)
  with 1 2 3 show ?thesis by (simp add: pollBatch_def)
qed

lemma pollLoop_returns:
  "Cancelled \<in> set script \<Longrightarrow>
   \<exists>r acts' rest. pollLoop limit batch acts script = Some (r, acts', rest) \<and> Cancelled \<in> set rest"
proof (induction limit batch acts script rule: pollLoop.induct)
  case (1 limit batch acts)
  then show ?case by simp
next
  case (2 limit batch acts rest)
  then show ?case by simp
next
  case (3 limit batch acts rest)
  then show ?case by simp
next
  case (4 limit batch acts ev rest')
  from 4(8) have mem: "Cancelled \<in> set rest'" by simp
  show ?case
  proof (cases "messageCount batch < limit")
    case False
    with mem show ?thesis by simp
  next
    case True
    show ?thesis
    proof (cases ev)
      case (AssignedPartitions x)
      with True 4(1) [OF _ AssignedPartitions mem] show ?thesis by simp
    next
      case (RevokedPartitions x)
      with True 4(2) [OF _ RevokedPartitions mem] show ?thesis by simp
    next
      case (Message msg)
      show ?thesis
      proof (cases "tpError msg")
        case (Some e)
        with True Message 4(5) [OF _ Message Some mem] show ?thesis by simp
      next
        case None
        show ?thesis
        proof (cases "addMessage batch msg")
          case (Inl err)
          with True Message None 4(3) [OF _ Message None Inl mem] show ?thesis by simp
        next
          case (Inr b')
          with True Message None 4(4) [OF _ Message None Inr mem] show ?thesis by simp
        qed
      qed
    next
      case (KafkaError e)
      with True mem show ?thesis by simp
    next
      case (Stats st)
      with True 4(6) [OF _ Stats mem] show ?thesis by simp
    next
      case OtherEvent
      with True 4(7) [OF _ OtherEvent mem] show ?thesis by simp
    qed
  qed
qed

lemma pollLoop_length:
  "pollLoop limit batch acts script = Some (r, acts', rest) \<Longrightarrow> length rest \<le> length script"
proof (induction limit batch acts script rule: pollLoop.induct)
  case (1 limit batch acts)
  then show ?case by (auto split: if_splits)
next
  case (2 limit batch acts rest)
  then show ?case by (auto split: if_splits)
next
  case (3 limit batch acts rest)
  then show ?case by (auto split: if_splits)
next
  case (4 limit batch acts ev rest')
  note run = 4(8)
  show ?case
  proof (cases "messageCount batch < limit")
    case False
    with run show ?thesis by auto
  next
    case True
    show ?thesis
    proof (cases ev)
      case (AssignedPartitions x)
      with True 4(1) [of x] run show ?thesis by auto
    next
      case (RevokedPartitions x)
      with True 4(2) [of x] run show ?thesis by auto
    next
      case (Message msg)
      show ?thesis
      proof (cases "tpError msg")
        case (Some e)
        with True Message 4(5) [of msg e] run show ?thesis by auto
      next
        case None
        show ?thesis
        proof (cases "addMessage batch msg")
          case (Inl err)
          with True Message None 4(3) [of msg err] run show ?thesis by auto
        next
          case (Inr b')
          with True Message None 4(4) [of msg b'] run show ?thesis by auto
        qed
      qed
    next
      case (KafkaError e)
      with True run show ?thesis by (auto split: if_splits)
    next
      case (Stats st)
      with True 4(6) [of st] run show ?thesis by auto
    next
      case OtherEvent
      with True 4(7) run show ?thesis by auto
    qed
  qed
qed

lemma pollLoop_consumes:
  assumes nd: "\<not> ctxDone script" and lt: "messageCount batch < limit"
    and run: "pollLoop limit batch acts script = Some (r, acts', rest)"
  shows "length rest < length script"
proof (cases script)
  case Nil
  with lt run show ?thesis by simp
next
  case (Cons x tl)
  show ?thesis
  proof (cases x)
    case Cancelled
    with Cons nd show ?thesis by (simp add: ctxDone_def)
  next
    case (Polled p)
    show ?thesis
    proof (cases p)
      case None
      with Cons Polled lt run show ?thesis by auto
    next
      case (Some ev)
      have rec: "pollLoop limit b a tl = Some (r, acts', rest) \<Longrightarrow> length rest < length script" for b a
        using pollLoop_length [of limit b a tl r acts' rest] Cons by simp
      from run Cons Polled Some lt show ?thesis
        by (cases ev) (auto split: option.splits sum.splits if_splits dest: rec)
    qed
  qed
qed

lemma pollBatch_consumes:
  assumes "\<not> ctxDone script" and "0 < batchSize c"
    and "pollBatch c script = Some (r, pacts, rest)"
  shows "length rest < length script"
  using pollLoop_consumes [OF assms(1), of newMessageBatch "batchSize c" "[]" r pacts rest] assms(2,3)
  by (simp add: pollBatch_def newMessageBatch_def)

lemma pollBatch_returns:
  "Cancelled \<in> set script \<Longrightarrow>
   \<exists>batch r pacts rest. pollBatch c script = Some ((batch, r), pacts, rest) \<and> Cancelled \<in> set rest"
  using pollLoop_returns [of script "batchSize c" newMessageBatch "[]"]
  by (auto simp: pollBatch_def)

lemma runLoop_returns:
  assumes "0 < batchSize c" and "Cancelled \<in> set script"
  shows "\<exists>r. runLoop rangeOrder c acts script = Some r"
  using assms
proof (induction "length script" arbitrary: c acts script rule: less_induct)
  case less
  show ?case
  proof (cases "ctxDone script")
    case True
    then show ?thesis by (simp add: runLoop.simps)
  next
    case nd: False
    from pollBatch_returns [OF less.prems(2)] obtain batch r pacts rest
      where pb: "pollBatch c script = Some ((batch, r), pacts, rest)"
        and mem: "Cancelled \<in> set rest" by blast
    from pollBatch_consumes [OF nd less.prems(1) pb] have lt: "length rest < length script" .
    have rec: "\<exists>r. runLoop rangeOrder (c\<lparr>errorBackoff := b\<rparr>) a rest = Some r" for b a
      using less.hyps [OF lt, of "c\<lparr>errorBackoff := b\<rparr>"] less.prems(1) mem by simp
    show ?thesis
    proof (cases r)
      case (Some e)
      with nd pb lt rec show ?thesis
        by (simp add: runLoop.simps [of rangeOrder c acts script] NextBackOff_def)
    next
      case None
      obtain dacts f where dp: "dispatch c (rangeOrder (batchMessages batch)) = (dacts, f)"
        by (cases "dispatch c (rangeOrder (batchMessages batch))")
      from None nd pb lt rec dp show ?thesis
        by (cases f) (simp_all add: runLoop.simps [of rangeOrder c acts script])
    qed
  qed
qed

lemma dispatch_fatal: "dispatch c entries = (dacts, Some fatal) \<Longrightarrow> fatal \<noteq> Canceled"
  by (induction c entries arbitrary: dacts rule: dispatch.induct)
     (auto split: option.splits prod.splits)

lemma pollBatches_step:
  assumes "\<not> ctxDone script" and "pollBatch c script = Some (r, pacts, rest)"
    and "length rest < length script"
  shows "pollBatches (batchSize c) script = r # pollBatches (batchSize c) rest"
  using assms by (simp add: pollBatches.simps [of "batchSize c" script] pollBatch_def)

lemma runLoop_trace:
  "runLoop rangeOrder c acts script = Some (err, acts', c') \<Longrightarrow>
   \<exists>tail. acts' = acts @ tail
     \<and> (err = Canceled \<longrightarrow>
          sleepsOf tail = waitsAfter (errorBackoff c) (pollBatches (batchSize c) script))"
proof (induction rangeOrder c acts script rule: runLoop.induct)
  case (1 rangeOrder c acts script)
  note run = "1.prems"(1)
  show ?case
  proof (cases "ctxDone script")
    case True
    with run have "acts' = acts" by (simp add: runLoop.simps)
    with True show ?thesis by (simp add: pollBatches.simps [of _ script])
  next
    case nd: False
    show ?thesis
    proof (cases "pollBatch c script")
      case None
      with nd run show ?thesis by (simp add: runLoop.simps)
    next
      case (Some x2)
      obtain batch r pacts rest where x2: "x2 = ((batch, r), pacts, rest)"
        by (metis prod.exhaust)
      from Some x2 have pb: "pollBatch c script = Some ((batch, r), pacts, rest)" by simp
      from pollBatch_actions [OF pb] have np: "sleepsOf pacts = []" .
      from run nd pb have lt: "length rest < length script"
        by (cases r) (auto simp: runLoop.simps [of rangeOrder c acts script] NextBackOff_def
            split: if_splits)
      note pbs = pollBatches_step [OF nd pb lt]
      show ?thesis
      proof (cases r)
        case (Some e)
        let ?c = "c\<lparr>errorBackoff := afterNext (errorBackoff c)\<rparr>"
        let ?a = "acts @ pacts @ [Errorf ''error polling kafka'' e, Sleep (nextWait (errorBackoff c))]"
        from run nd pb Some lt
        have rec: "runLoop rangeOrder ?c ?a rest = Some (err, acts', c')"
          by (simp add: runLoop.simps [of rangeOrder c acts script] NextBackOff_def)
        have nb: "(nextWait (errorBackoff c), afterNext (errorBackoff c)) = NextBackOff (errorBackoff c)"
          by (simp add: NextBackOff_def)
        from "1.IH"(3) [OF nd pb refl refl Some refl nb lt rec]
        obtain tail where t: "acts' = ?a @ tail"
          and w: "err = Canceled \<longrightarrow>
            sleepsOf tail = waitsAfter (errorBackoff ?c) (pollBatches (batchSize ?c) rest)" by blast
        let ?tail = "pacts @ Errorf ''error polling kafka'' e # Sleep (nextWait (errorBackoff c)) # tail"
        have "acts' = acts @ ?tail" using t by simp
        moreover have "err = Canceled \<longrightarrow>
            sleepsOf ?tail = waitsAfter (errorBackoff c) (pollBatches (batchSize c) script)"
          using w np by (simp add: pbs Some sleepsOf_append)
        ultimately show ?thesis by blast
      next
        case None
        let ?c = "c\<lparr>errorBackoff := Reset (errorBackoff c)\<rparr>"
        show ?thesis
        proof (cases "messageCount batch = 0")
          case True
          from run nd pb None lt True
          have rec: "runLoop rangeOrder ?c (acts @ pacts) rest = Some (err, acts', c')"
            by (simp add: runLoop.simps [of rangeOrder c acts script])
          from "1.IH"(1) [OF nd pb refl refl None refl _ True rec] lt
          obtain tail where t: "acts' = (acts @ pacts) @ tail"
            and w: "err = Canceled \<longrightarrow>
              sleepsOf tail = waitsAfter (errorBackoff ?c) (pollBatches (batchSize ?c) rest)" by auto
          have "acts' = acts @ (pacts @ tail)" using t by simp
          moreover have "err = Canceled \<longrightarrow>
              sleepsOf (pacts @ tail) = waitsAfter (errorBackoff c) (pollBatches (batchSize c) script)"
            using w np by (simp add: pbs None sleepsOf_append Reset_def)
          ultimately show ?thesis by blast
        next
          case False
          obtain dacts f where dp: "dispatch c (rangeOrder (batchMessages batch)) = (dacts, f)"
            by (cases "dispatch c (rangeOrder (batchMessages batch))")
          from dispatch_actions [OF dp] have nd': "sleepsOf dacts = []" .
          show ?thesis
          proof (cases f)
            case (Some fatal)
            from run nd pb None lt False dp Some
            have "acts' = acts @ (pacts @ dacts)" and "err = fatal"
              by (simp_all add: runLoop.simps [of rangeOrder c acts script])
            moreover from dp Some have "fatal \<noteq> Canceled" using dispatch_fatal by simp
            ultimately show ?thesis by blast
          next
            case fn: None
            from run nd pb None lt False dp fn
            have rec: "runLoop rangeOrder ?c (acts @ pacts @ dacts) rest = Some (err, acts', c')"
              by (simp add: runLoop.simps [of rangeOrder c acts script])
            from "1.IH"(2) [OF nd pb refl refl None refl _ False dp [symmetric] fn rec] lt
            obtain tail where t: "acts' = (acts @ pacts @ dacts) @ tail"
              and w: "err = Canceled \<longrightarrow>
                sleepsOf tail = waitsAfter (errorBackoff ?c) (pollBatches (batchSize ?c) rest)" by auto
            have "acts' = acts @ (pacts @ dacts @ tail)" using t by simp
            moreover have "err = Canceled \<longrightarrow> sleepsOf (pacts @ dacts @ tail)
                = waitsAfter (errorBackoff c) (pollBatches (batchSize c) script)"
              using w np nd' by (simp add: pbs None sleepsOf_append Reset_def)
            ultimately show ?thesis by blast
          qed
        qed
      qed
    qed
  qed
qed

lemma runLoop_dispatch:
  assumes nd: "\<not> ctxDone script"
    and pb: "pollBatch c script = Some ((batch', None), pacts, rest')"
    and ne: "messageCount batch' \<noteq> 0"
    and pause: "\<forall>e \<in> set (batchMessages batch'). consumerPause (lib c) (fst e) = None"
    and perm: "visitsEachEntryOnce rangeOrder"
  shows "runLoop rangeOrder c acts script
          = runLoop rangeOrder (c\<lparr>errorBackoff := Reset (errorBackoff c)\<rparr>)
              (acts @ pacts
                 @ concat (map (\<lambda>e. [Pause (fst e), GoProcessPartition (fst e) (snd e)])
                     (rangeOrder (batchMessages batch'))))
              rest'"
proof -
  from pb have "pollLoop (batchSize c) newMessageBatch [] script
      = Some ((batch', None), pacts, rest')" by (simp add: pollBatch_def)
  from pollLoop_result [OF this batchInv_new] ne
  have lt: "length rest' < length script" by (simp add: newMessageBatch_def)
  from perm have "mset (rangeOrder (batchMessages batch')) = mset (batchMessages batch')"
    by (simp add: visitsEachEntryOnce_def)
  then have "set (rangeOrder (batchMessages batch')) = set (batchMessages batch')"
    by (rule mset_eq_setD)
  with pause have "\<forall>e \<in> set (rangeOrder (batchMessages batch')). consumerPause (lib c) (fst e) = None"
    by simp
  from dispatch_all [OF this]
  have d: "dispatch c (rangeOrder (batchMessages batch'))
     = (concat (map (\<lambda>e. [Pause (fst e), GoProcessPartition (fst e) (snd e)])
          (rangeOrder (batchMessages batch'))), None)" .
  show ?thesis
    using nd pb ne lt d by (simp add: runLoop.simps [of rangeOrder c acts script])
qed


lemma runLoop_failure_step:
  assumes "0 < batchSize c"
  shows "runLoop rangeOrder c acts (Polled (Some (KafkaError e)) # rest)
     = runLoop rangeOrder (c\<lparr>errorBackoff := afterNext (errorBackoff c)\<rparr>)
         (acts @ [Errorf ''kafka error'' (Error e),
                  Errorf ''error polling kafka'' (Error (''kafka error: '' @ e)),
                  Sleep (nextWait (errorBackoff c))])
         rest"
  using assms
  by (simp add: runLoop.simps [of rangeOrder c acts "Polled (Some (KafkaError e)) # rest"]
      pollBatch_def ctxDone_def newMessageBatch_def NextBackOff_def)

lemma runLoop_empty_success_step:
  assumes "0 < batchSize c"
  shows "runLoop rangeOrder c acts (Polled None # rest)
     = runLoop rangeOrder (c\<lparr>errorBackoff := afterReset (errorBackoff c)\<rparr>) acts rest"
  using assms
  by (simp add: runLoop.simps [of rangeOrder c acts "Polled None # rest"]
      pollBatch_def ctxDone_def newMessageBatch_def Reset_def)

lemma runLoop_cancelled:
  "runLoop rangeOrder c acts (Cancelled # rest) = Some (Canceled, acts, c)"
  by (simp add: runLoop.simps [of rangeOrder c acts "Cancelled # rest"] ctxDone_def)

lemma waits_upt_Suc:
  "map (\<lambda>i. nextWait ((afterNext ^^ i) b)) [0..<Suc n]
     = nextWait b # map (\<lambda>i. nextWait ((afterNext ^^ i) (afterNext b))) [0..<n]"
proof -
  have "[0..<Suc n] = 0 # map Suc [0..<n]" by (simp add: upt_conv_Cons map_Suc_upt del: upt_Suc)
  then show ?thesis by (simp add: comp_def funpow_swap1 del: upt_Suc)
qed

lemma runLoop_failures:
  assumes "0 < batchSize c"
  shows "\<exists>more. sleepsOf more = map (\<lambda>i. nextWait ((afterNext ^^ i) (errorBackoff c))) [0..<length es]
      \<and> runLoop rangeOrder c acts (map (\<lambda>e. Polled (Some (KafkaError e))) es @ script)
         = runLoop rangeOrder (c\<lparr>errorBackoff := (afterNext ^^ length es) (errorBackoff c)\<rparr>)
             (acts @ more) script"
  using assms
proof (induction es arbitrary: c acts)
  case Nil
  have "sleepsOf [] = map (\<lambda>i. nextWait ((afterNext ^^ i) (errorBackoff c))) [0..<length ([] :: string list)]
      \<and> runLoop rangeOrder c acts (map (\<lambda>e. Polled (Some (KafkaError e))) [] @ script)
         = runLoop rangeOrder (c\<lparr>errorBackoff := (afterNext ^^ length ([] :: string list)) (errorBackoff c)\<rparr>)
             (acts @ []) script" by simp
  then show ?case by blast
next
  case (Cons e es)
  let ?c = "c\<lparr>errorBackoff := afterNext (errorBackoff c)\<rparr>"
  let ?a = "[Errorf ''kafka error'' (Error e),
             Errorf ''error polling kafka'' (Error (''kafka error: '' @ e)),
             Sleep (nextWait (errorBackoff c))]"
  have bs: "0 < batchSize ?c" using Cons.prems by simp
  from Cons.IH [OF bs, of "acts @ ?a"] obtain more
    where m: "sleepsOf more = map (\<lambda>i. nextWait ((afterNext ^^ i) (errorBackoff ?c))) [0..<length es]"
      and r: "runLoop rangeOrder ?c (acts @ ?a) (map (\<lambda>e. Polled (Some (KafkaError e))) es @ script)
         = runLoop rangeOrder (?c\<lparr>errorBackoff := (afterNext ^^ length es) (errorBackoff ?c)\<rparr>)
             ((acts @ ?a) @ more) script" by blast
  have 1: "sleepsOf (?a @ more)
      = map (\<lambda>i. nextWait ((afterNext ^^ i) (errorBackoff c))) [0..<length (e # es)]"
    using m by (simp add: waits_upt_Suc del: upt_Suc)
  have 2: "runLoop rangeOrder c acts (map (\<lambda>e. Polled (Some (KafkaError e))) (e # es) @ script)
         = runLoop rangeOrder (c\<lparr>errorBackoff := (afterNext ^^ length (e # es)) (errorBackoff c)\<rparr>)
             (acts @ (?a @ more)) script"
    using r runLoop_failure_step [OF Cons.prems, of rangeOrder acts e
        "map (\<lambda>e. Polled (Some (KafkaError e))) es @ script"]
    by (simp add: funpow_swap1)
  from 1 2 show ?case by blast
qed

section \<open>Backoff of the poll loop\<close>

lemma newKafkaEventConsumer_sel:
  "0 < batchSize (newKafkaEventConsumer l newBackOff cfg)"
  "config (newKafkaEventConsumer l newBackOff cfg) = cfg"
  "lib (newKafkaEventConsumer l newBackOff cfg) = l"
  "errorBackoff (newKafkaEventConsumer l newBackOff cfg) = newBackOff 30000"
  by (simp_all add: newKafkaEventConsumer_def)

text \<open>
  C4, as the code computes it. The consumer is built with the backoff that
  \<open>backoff.NewExponentialBackOff\<close> returns, its \<open>MaxInterval\<close> set to 30 seconds, and the
  poll loop adds nothing of its own to the waits. A run whose context is cancelled at
  some point returns, and when it returns the cancellation its sleeps are exactly what
  the backoff gives: one \<open>NextBackOff\<close> for each failed \<open>pollBatch\<close>, in order, and a
  \<open>Reset\<close> after each successful one, with or without messages. After \<open>n\<close> broker
  errors in a row the sleeps are the first \<open>n\<close> waits of the backoff; if a poll that
  returns nothing and further broker errors come next, the sleeps that follow are the
  first waits of the backoff after its \<open>Reset\<close>. Whether the waits grow, stay below 30
  seconds, or start at the base interval is a property of the backoff, not of the loop.
\<close>

theorem run_sleeps_follow_backoff:
  "(Cancelled \<in> set script \<longrightarrow>
      (\<exists>err acts c'.
          run rangeOrder (newKafkaEventConsumer l newBackOff cfg) script = Some (err, acts, c')
          \<and> (err = Canceled \<longrightarrow>
               sleepsOf acts
                 = waitsAfter (newBackOff 30000)
                     (pollBatches (batchSize (newKafkaEventConsumer l newBackOff cfg)) script))))
   \<and> (consumerSubscribeTopics l (concat (map (\<lambda>t. buildTopicRegexes t (Pods cfg)) (Topics cfg)))
         = None \<longrightarrow>
      (\<exists>acts c'.
          run rangeOrder (newKafkaEventConsumer l newBackOff cfg)
            (map (\<lambda>e. Polled (Some (KafkaError e))) es @ Cancelled # rest)
            = Some (Canceled, acts, c')
          \<and> sleepsOf acts
              = map (\<lambda>i. nextWait ((afterNext ^^ i) (newBackOff 30000))) [0..<length es])
      \<and> (\<exists>acts c'.
          run rangeOrder (newKafkaEventConsumer l newBackOff cfg)
            (map (\<lambda>e. Polled (Some (KafkaError e))) es @ Polled None
               # map (\<lambda>e. Polled (Some (KafkaError e))) es' @ Cancelled # rest)
            = Some (Canceled, acts, c')
          \<and> sleepsOf acts
              = map (\<lambda>i. nextWait ((afterNext ^^ i) (newBackOff 30000))) [0..<length es]
                @ map (\<lambda>i. nextWait ((afterNext ^^ i)
                               (afterReset ((afterNext ^^ length es) (newBackOff 30000)))))
                    [0..<length es']))"
proof -
  let ?c = "newKafkaEventConsumer l newBackOff cfg"
  let ?topics = "concat (map (\<lambda>t. buildTopicRegexes t (Pods cfg)) (Topics cfg))"
  let ?pre = "[Infof ''subscribing to topics'', SubscribeTopics ?topics]"
  note sel = newKafkaEventConsumer_sel [of l newBackOff cfg]
  have run: "run rangeOrder ?c s =
      (case consumerSubscribeTopics l ?topics of
         Some err \<Rightarrow> Some (Wrapf ''kafka topic subscribe'' err, ?pre, ?c)
       | None \<Rightarrow> runLoop rangeOrder ?c ?pre s)" for s
    by (simp add: run_def Let_def sel)
  have 1: "\<exists>err acts c'. run rangeOrder ?c script = Some (err, acts, c')
          \<and> (err = Canceled \<longrightarrow>
               sleepsOf acts = waitsAfter (newBackOff 30000) (pollBatches (batchSize ?c) script))"
    if mem: "Cancelled \<in> set script"
  proof (cases "consumerSubscribeTopics l ?topics")
    case (Some e)
    then have "run rangeOrder ?c script = Some (Wrapf ''kafka topic subscribe'' e, ?pre, ?c)"
      by (simp add: run)
    then show ?thesis by auto
  next
    case None
    from runLoop_returns [OF sel(1) mem, of rangeOrder ?pre] obtain err acts c'
      where r: "runLoop rangeOrder ?c ?pre script = Some (err, acts, c')"
      by (metis prod.exhaust)
    from runLoop_trace [OF r] obtain tail where t: "acts = ?pre @ tail"
      and w: "err = Canceled \<longrightarrow>
        sleepsOf tail = waitsAfter (errorBackoff ?c) (pollBatches (batchSize ?c) script)" by blast
    have "run rangeOrder ?c script = Some (err, acts, c')" using None r by (simp add: run)
    moreover have "err = Canceled \<longrightarrow>
        sleepsOf acts = waitsAfter (newBackOff 30000) (pollBatches (batchSize ?c) script)"
      using w t by (simp add: sel)
    ultimately show ?thesis by blast
  qed
  have 2: "\<exists>acts c'. run rangeOrder ?c (map (\<lambda>e. Polled (Some (KafkaError e))) es @ Cancelled # rest)
            = Some (Canceled, acts, c')
          \<and> sleepsOf acts = map (\<lambda>i. nextWait ((afterNext ^^ i) (newBackOff 30000))) [0..<length es]"
    if sub: "consumerSubscribeTopics l ?topics = None"
  proof -
    from runLoop_failures [OF sel(1), of es rangeOrder ?pre "Cancelled # rest"] obtain more
      where m: "sleepsOf more = map (\<lambda>i. nextWait ((afterNext ^^ i) (errorBackoff ?c))) [0..<length es]"
        and r: "runLoop rangeOrder ?c ?pre (map (\<lambda>e. Polled (Some (KafkaError e))) es @ Cancelled # rest)
           = runLoop rangeOrder (?c\<lparr>errorBackoff := (afterNext ^^ length es) (errorBackoff ?c)\<rparr>)
               (?pre @ more) (Cancelled # rest)" by blast
    have "run rangeOrder ?c (map (\<lambda>e. Polled (Some (KafkaError e))) es @ Cancelled # rest)
        = Some (Canceled, ?pre @ more, ?c\<lparr>errorBackoff := (afterNext ^^ length es) (errorBackoff ?c)\<rparr>)"
      using sub r by (simp add: run runLoop_cancelled)
    moreover have "sleepsOf (?pre @ more)
        = map (\<lambda>i. nextWait ((afterNext ^^ i) (newBackOff 30000))) [0..<length es]"
      using m by (simp add: sel)
    ultimately show ?thesis by blast
  qed
  have 3: "\<exists>acts c'. run rangeOrder ?c
            (map (\<lambda>e. Polled (Some (KafkaError e))) es @ Polled None
               # map (\<lambda>e. Polled (Some (KafkaError e))) es' @ Cancelled # rest)
            = Some (Canceled, acts, c')
          \<and> sleepsOf acts
              = map (\<lambda>i. nextWait ((afterNext ^^ i) (newBackOff 30000))) [0..<length es]
                @ map (\<lambda>i. nextWait ((afterNext ^^ i)
                               (afterReset ((afterNext ^^ length es) (newBackOff 30000)))))
                    [0..<length es']"
    if sub: "consumerSubscribeTopics l ?topics = None"
  proof -
    let ?s2 = "map (\<lambda>e. Polled (Some (KafkaError e))) es' @ Cancelled # rest"
    let ?c1 = "?c\<lparr>errorBackoff := (afterNext ^^ length es) (errorBackoff ?c)\<rparr>"
    let ?c2 = "?c1\<lparr>errorBackoff := afterReset (errorBackoff ?c1)\<rparr>"
    let ?c3 = "?c2\<lparr>errorBackoff := (afterNext ^^ length es') (errorBackoff ?c2)\<rparr>"
    from runLoop_failures [OF sel(1), of es rangeOrder ?pre "Polled None # ?s2"] obtain more
      where m: "sleepsOf more = map (\<lambda>i. nextWait ((afterNext ^^ i) (errorBackoff ?c))) [0..<length es]"
        and r: "runLoop rangeOrder ?c ?pre (map (\<lambda>e. Polled (Some (KafkaError e))) es @ Polled None # ?s2)
           = runLoop rangeOrder ?c1 (?pre @ more) (Polled None # ?s2)" by blast
    have b1: "0 < batchSize ?c1" and b2: "0 < batchSize ?c2" using sel(1) by simp_all
    have r2: "runLoop rangeOrder ?c1 (?pre @ more) (Polled None # ?s2)
        = runLoop rangeOrder ?c2 (?pre @ more) ?s2"
      by (rule runLoop_empty_success_step [OF b1])
    from runLoop_failures [OF b2, of es' rangeOrder "?pre @ more" "Cancelled # rest"] obtain more'
      where m': "sleepsOf more' = map (\<lambda>i. nextWait ((afterNext ^^ i) (errorBackoff ?c2))) [0..<length es']"
        and r3: "runLoop rangeOrder ?c2 (?pre @ more) ?s2
           = runLoop rangeOrder ?c3 ((?pre @ more) @ more') (Cancelled # rest)" by blast
    have "run rangeOrder ?c (map (\<lambda>e. Polled (Some (KafkaError e))) es @ Polled None # ?s2)
        = Some (Canceled, (?pre @ more) @ more', ?c3)"
      using sub r r2 r3 by (simp only: run option.case runLoop_cancelled)
    moreover have "sleepsOf ((?pre @ more) @ more')
        = map (\<lambda>i. nextWait ((afterNext ^^ i) (newBackOff 30000))) [0..<length es]
                @ map (\<lambda>i. nextWait ((afterNext ^^ i)
                               (afterReset ((afterNext ^^ length es) (newBackOff 30000)))))
                    [0..<length es']"
      using m m' by (simp add: sel sleepsOf_append)
    ultimately show ?thesis by blast
  qed
  from 1 2 3 show ?thesis by blast
qed

lemmas example_poll_defs = run_def runLoop.simps pollBatch_def ctxDone_def
  exPollConsumer_def newKafkaEventConsumer_def exLibrary_def exConfig_def exDraws_def
  NextBackOff_def Reset_def nextWait_def afterNext_def afterReset_def jitteredBackOff_def
  newMessageBatch_def addMessage_def newTopicPartition_def buildTopicRegexes_def
  TopicScopePod_def TopicScopeGlobal_def exMessage_def Let_def

lemma example_run:
  "map_option (\<lambda>r. (fst r, fst (snd r))) (run id exPollConsumer exPollScript)
     = Some (Canceled, exPollActions)"
  by (simp add: example_poll_defs exPollScript_def exPollActions_def)

lemma example_replicate: "replicate 12 x = [x, x, x, x, x, x, x, x, x, x, x, x]"
  by (simp add: numeral_eq_Suc)

lemma example_subscribe:
  "consumerSubscribeTopics exLibrary
     (concat (map (\<lambda>t. buildTopicRegexes t (Pods exConfig)) (Topics exConfig))) = None"
  by (simp add: exLibrary_def)

lemma example_waits:
  "map (\<lambda>i. nextWait ((afterNext ^^ i) (jitteredBackOff 500 30000 exDraws))) [0..<length [a, b, c]]
     = [729, 381, 1079]"
  "map (\<lambda>i. nextWait ((afterNext ^^ i)
      (afterReset ((afterNext ^^ length [a, b, c]) (jitteredBackOff 500 30000 exDraws)))))
      [0..<length [d]] = [612]"
  by (simp_all add: nextWait_def afterNext_def afterReset_def jitteredBackOff_def exDraws_def)

theorem run_sleeps_follow_backoff_witness:
  "Cancelled \<in> set exPollScript
   \<and> map_option (\<lambda>r. (fst r, fst (snd r))) (run id exPollConsumer exPollScript)
       = Some (Canceled, exPollActions)
   \<and> sleepsOf exPollActions
       = waitsAfter (jitteredBackOff 500 30000 exDraws)
           (pollBatches (batchSize exPollConsumer) exPollScript)
   \<and> sleepsOf exPollActions = [729, 381, 1079, 612]
   \<and> (\<exists>acts c'.
         run id exPollConsumer
           (map (\<lambda>e. Polled (Some (KafkaError e))) [''down'', ''down'', ''down''] @ Polled None
              # map (\<lambda>e. Polled (Some (KafkaError e))) [''down''] @ Cancelled # [])
           = Some (Canceled, acts, c')
         \<and> sleepsOf acts = [729, 381, 1079, 612])"
proof -
  note inst = run_sleeps_follow_backoff [where l = exLibrary
      and newBackOff = "\<lambda>cap. jitteredBackOff 500 cap exDraws" and cfg = exConfig
      and rangeOrder = id and script = exPollScript and es = "[''down'', ''down'', ''down'']"
      and es' = "[''down'']" and rest = "[]", folded exPollConsumer_def]
  have mem: "Cancelled \<in> set exPollScript" by (simp add: exPollScript_def)
  from inst mem obtain err acts c' where r: "run id exPollConsumer exPollScript = Some (err, acts, c')"
    and w: "err = Canceled \<longrightarrow> sleepsOf acts
       = waitsAfter (jitteredBackOff 500 30000 exDraws)
           (pollBatches (batchSize exPollConsumer) exPollScript)" by blast
  from r example_run have "err = Canceled" "acts = exPollActions" by simp_all
  with w have 1: "sleepsOf exPollActions
       = waitsAfter (jitteredBackOff 500 30000 exDraws)
           (pollBatches (batchSize exPollConsumer) exPollScript)" by simp
  have 2: "sleepsOf exPollActions = [729, 381, 1079, 612]" by (simp add: exPollActions_def)
  from inst example_subscribe have 3: "\<exists>acts c'.
         run id exPollConsumer
           (map (\<lambda>e. Polled (Some (KafkaError e))) [''down'', ''down'', ''down''] @ Polled None
              # map (\<lambda>e. Polled (Some (KafkaError e))) [''down''] @ Cancelled # [])
           = Some (Canceled, acts, c')
         \<and> sleepsOf acts = [729, 381, 1079, 612]"
    by (simp only: example_waits append.simps)
  from mem example_run 1 2 3 show ?thesis by blast
qed

text \<open>
  C4 as the specification words it: non-decreasing waits up to 30 seconds, and the base
  interval after a success. With a backoff whose waits are drawn around the interval, as
  the package's exponential backoff draws them, twelve broker errors in a row are
  followed by the sleeps 729, 381, ... and 36000 milliseconds: the second is shorter than
  the first and the last is longer than 30 seconds. In the second run the sleep after
  the dispatched batch is 612 milliseconds, where the base interval is 500.
\<close>

theorem run_sleeps_counterexample:
  "map_option (sleepsOf \<circ> fst \<circ> snd) (run id exPollConsumer exFailScript)
     = Some [729, 381, 1079, 1206, 1265, 1898, 2846, 4269, 6404, 9605, 14408, 36000]
   \<and> map_option (sleepsOf \<circ> fst \<circ> snd) (run id exPollConsumer exPollScript)
     = Some [729, 381, 1079, 612]
   \<and> \<not> (729 :: int) \<le> 381 \<and> \<not> (36000 :: int) \<le> 30000 \<and> (612 :: int) \<noteq> 500"
  by (simp add: example_poll_defs exPollScript_def exFailScript_def example_replicate)

section \<open>Broker errors while polling\<close>

lemma sleepsOf_dispatched:
  "sleepsOf (concat (map (\<lambda>en. [Pause (fst en), GoProcessPartition (fst en) (snd en)]) entries)) = []"
  by (induction entries) simp_all

lemma runLoop_partial_batch:
  assumes valid: "\<forall>m \<in> set msgs. tpError m = None \<and> tpTopic m \<noteq> None"
    and ne: "msgs \<noteq> []"
    and lt: "int (length msgs) < batchSize c"
    and mem: "Cancelled \<in> set rest"
    and pause: "\<forall>en \<in> set (batchMessages (addMessages newMessageBatch msgs)).
                  consumerPause (lib c) (fst en) = None"
    and perm: "visitsEachEntryOnce rangeOrder"
  shows "\<exists>err tail c'.
      runLoop rangeOrder c acts
        (map (\<lambda>m. Polled (Some (Message m))) msgs @ Polled (Some (KafkaError e)) # rest)
      = Some (err,
          acts @ Errorf ''kafka error'' (Error e)
            # concat (map (\<lambda>en. [Pause (fst en), GoProcessPartition (fst en) (snd en)])
                (rangeOrder (batchMessages (addMessages newMessageBatch msgs))))
            @ tail, c')"
proof -
  let ?script = "map (\<lambda>m. Polled (Some (Message m))) msgs @ Polled (Some (KafkaError e)) # rest"
  let ?b = "addMessages newMessageBatch msgs"
  let ?d = "concat (map (\<lambda>en. [Pause (fst en), GoProcessPartition (fst en) (snd en)])
                (rangeOrder (batchMessages ?b)))"
  let ?c = "c\<lparr>errorBackoff := Reset (errorBackoff c)\<rparr>"
  from ne obtain m ms where msgs: "msgs = m # ms" by (cases msgs) auto
  have nd: "\<not> ctxDone ?script" by (simp add: msgs ctxDone_def)
  from pollBatch_partial [OF valid lt, of e rest] ne
  have pb: "pollBatch c ?script = Some ((?b, None), [Errorf ''kafka error'' (Error e)], rest)"
    and cnt: "messageCount ?b = int (length msgs)" by simp_all
  from cnt ne have nz: "messageCount ?b \<noteq> 0" by simp
  from runLoop_dispatch [OF nd pb nz pause perm, of acts]
  have step: "runLoop rangeOrder c acts ?script
      = runLoop rangeOrder ?c (acts @ [Errorf ''kafka error'' (Error e)] @ ?d) rest" .
  have bs: "0 < batchSize ?c" using lt by simp
  from runLoop_returns [OF bs mem, of rangeOrder "acts @ [Errorf ''kafka error'' (Error e)] @ ?d"]
  obtain err acts' c' where r: "runLoop rangeOrder ?c (acts @ [Errorf ''kafka error'' (Error e)] @ ?d) rest
      = Some (err, acts', c')" by (metis prod.exhaust)
  from runLoop_trace [OF r] obtain tail
    where "acts' = (acts @ [Errorf ''kafka error'' (Error e)] @ ?d) @ tail" by blast
  with step r have "runLoop rangeOrder c acts ?script
      = Some (err, acts @ Errorf ''kafka error'' (Error e) # ?d @ tail, c')" by simp
  then show ?thesis by blast
qed

lemma dispatched_messages:
  assumes "\<forall>m \<in> set msgs. tpError m = None \<and> tpTopic m \<noteq> None"
    and "int (length msgs) < batchSize (c :: kafkaEventConsumer)"
    and "visitsEachEntryOnce rangeOrder"
  shows "mset (concat (map snd (rangeOrder (batchMessages (addMessages newMessageBatch msgs)))))
           = mset msgs"
proof -
  from assms(3) have "mset (rangeOrder (batchMessages (addMessages newMessageBatch msgs)))
      = mset (batchMessages (addMessages newMessageBatch msgs))"
    by (simp add: visitsEachEntryOnce_def)
  then have "mset (concat (map snd (rangeOrder (batchMessages (addMessages newMessageBatch msgs)))))
      = mset (concat (map snd (batchMessages (addMessages newMessageBatch msgs))))"
    by (rule mset_concat_perm)
  with pollBatch_partial [OF assms(1,2)] show ?thesis by simp
qed

lemma runLoop_empty_batch:
  assumes bs: "0 < batchSize c" and mem: "Cancelled \<in> set rest"
  shows "\<exists>err tail c'.
      runLoop rangeOrder c acts (Polled (Some (KafkaError e)) # rest)
      = Some (err,
          acts @ [Errorf ''kafka error'' (Error e),
                  Errorf ''error polling kafka'' (Error (''kafka error: '' @ e)),
                  Sleep (nextWait (errorBackoff c))] @ tail, c')"
proof -
  let ?a = "[Errorf ''kafka error'' (Error e),
             Errorf ''error polling kafka'' (Error (''kafka error: '' @ e)),
             Sleep (nextWait (errorBackoff c))]"
  let ?c = "c\<lparr>errorBackoff := afterNext (errorBackoff c)\<rparr>"
  have bs': "0 < batchSize ?c" using bs by simp
  from runLoop_returns [OF bs' mem, of rangeOrder "acts @ ?a"]
  obtain err acts' c' where r: "runLoop rangeOrder ?c (acts @ ?a) rest = Some (err, acts', c')"
    by (metis prod.exhaust)
  from runLoop_trace [OF r] obtain tail where "acts' = (acts @ ?a) @ tail" by blast
  with r runLoop_failure_step [OF bs, of rangeOrder acts e rest]
  have "runLoop rangeOrder c acts (Polled (Some (KafkaError e)) # rest)
      = Some (err, acts @ ?a @ tail, c')" by simp
  then show ?thesis by blast
qed

text \<open>
  C5. When \<open>Poll\<close> yields a broker error while fewer messages than the batch size are
  accumulated, \<open>pollBatch\<close> logs it and returns the accumulated batch: with a nil error if
  the batch holds a message, with the error if it is empty. So \<open>pollBatch\<close> returns an
  error other than the cancellation only with an empty batch; after messages that were
  all added, a broker error returns exactly those messages. In the poll loop, when the
  broker error comes after such messages and the context is cancelled at some point, the
  run returns, and its actions after the log line of the error are the dispatch of the
  batch, partition by partition (pause, then \<open>processPartition\<close> in a goroutine), with
  every message of the batch in it and no sleep before it; what the run does next comes
  after. When the broker error comes first, the batch is empty and the next actions are
  the log line of the failed poll and the sleep of the backoff.
\<close>

theorem pollBatch_broker_error:
  "(messageCount batch < limit \<longrightarrow>
      pollLoop limit batch acts (Polled (Some (KafkaError e)) # rest)
        = Some ((batch, if 0 < messageCount batch then None
                        else Some (Error (''kafka error: '' @ e))),
                acts @ [Errorf ''kafka error'' (Error e)], rest))
   \<and> (pollBatch c script = Some ((batch', Some err), pacts, rest') \<longrightarrow> err \<noteq> Canceled
        \<longrightarrow> messageCount batch' = 0 \<and> concat (map snd (batchMessages batch')) = [])
   \<and> ((\<forall>m \<in> set msgs. tpError m = None \<and> tpTopic m \<noteq> None)
        \<longrightarrow> int (length msgs) < batchSize c
        \<longrightarrow> pollBatch c (map (\<lambda>m. Polled (Some (Message m))) msgs
                           @ Polled (Some (KafkaError e)) # rest)
              = Some ((addMessages newMessageBatch msgs,
                       if msgs = [] then Some (Error (''kafka error: '' @ e)) else None),
                      [Errorf ''kafka error'' (Error e)], rest)
            \<and> messageCount (addMessages newMessageBatch msgs) = int (length msgs)
            \<and> mset (concat (map snd (batchMessages (addMessages newMessageBatch msgs))))
                = mset msgs)
   \<and> ((\<forall>m \<in> set msgs. tpError m = None \<and> tpTopic m \<noteq> None)
        \<longrightarrow> msgs \<noteq> [] \<longrightarrow> int (length msgs) < batchSize c
        \<longrightarrow> Cancelled \<in> set rest
        \<longrightarrow> (\<forall>en \<in> set (batchMessages (addMessages newMessageBatch msgs)).
               consumerPause (lib c) (fst en) = None)
        \<longrightarrow> visitsEachEntryOnce rangeOrder
        \<longrightarrow> (\<exists>err tail c'.
               runLoop rangeOrder c racts
                 (map (\<lambda>m. Polled (Some (Message m))) msgs
                    @ Polled (Some (KafkaError e)) # rest)
               = Some (err,
                   racts @ Errorf ''kafka error'' (Error e)
                     # concat (map (\<lambda>en. [Pause (fst en), GoProcessPartition (fst en) (snd en)])
                         (rangeOrder (batchMessages (addMessages newMessageBatch msgs))))
                     @ tail, c'))
            \<and> sleepsOf (Errorf ''kafka error'' (Error e)
                 # concat (map (\<lambda>en. [Pause (fst en), GoProcessPartition (fst en) (snd en)])
                     (rangeOrder (batchMessages (addMessages newMessageBatch msgs))))) = []
            \<and> mset (concat (map snd (rangeOrder (batchMessages (addMessages newMessageBatch msgs)))))
                = mset msgs)
   \<and> (0 < batchSize c \<longrightarrow> Cancelled \<in> set rest
        \<longrightarrow> (\<exists>err tail c'.
               runLoop rangeOrder c racts (Polled (Some (KafkaError e)) # rest)
               = Some (err,
                   racts @ [Errorf ''kafka error'' (Error e),
                            Errorf ''error polling kafka'' (Error (''kafka error: '' @ e)),
                            Sleep (nextWait (errorBackoff c))] @ tail, c')))"
proof -
  have 1: "messageCount batch < limit \<longrightarrow>
      pollLoop limit batch acts (Polled (Some (KafkaError e)) # rest)
        = Some ((batch, if 0 < messageCount batch then None
                        else Some (Error (''kafka error: '' @ e))),
                acts @ [Errorf ''kafka error'' (Error e)], rest)"
    by simp
  have 2: "sleepsOf (Errorf ''kafka error'' (Error e)
                 # concat (map (\<lambda>en. [Pause (fst en), GoProcessPartition (fst en) (snd en)])
                     (rangeOrder (batchMessages (addMessages newMessageBatch msgs))))) = []"
    by (simp add: sleepsOf_dispatched)
  from 1 2 pollBatch_error_empty [of c script batch' err pacts rest']
    pollBatch_partial [of msgs c e rest]
    runLoop_partial_batch [of msgs c rest rangeOrder racts e]
    dispatched_messages [of msgs c rangeOrder]
    runLoop_empty_batch [of c rest rangeOrder racts e]
  show ?thesis by blast
qed

lemma example_partial: "addMessages newMessageBatch [exMessage 0 ''a'' ''full'' []] = exPartialBatch"
  by (simp add: addMessages_def addMessage_def newTopicPartition_def newMessageBatch_def
      exMessage_def exPartialBatch_def)

lemma example_poll_facts:
  "\<forall>m \<in> set [exMessage 0 ''a'' ''full'' []]. tpError m = None \<and> tpTopic m \<noteq> None"
  "int (length [exMessage 0 ''a'' ''full'' []]) < batchSize exPollConsumer"
  "int (length ([] :: kafkaMessage list)) < batchSize exPollConsumer"
  "0 < batchSize exPollConsumer"
  "\<forall>e \<in> set (batchMessages exPartialBatch). consumerPause (lib exPollConsumer) (fst e) = None"
  "visitsEachEntryOnce (id :: (topicPartition, kafkaMessage) mapRange)"
  "nextWait (errorBackoff exPollConsumer) = 729"
  by (simp_all add: exPollConsumer_def newKafkaEventConsumer_def exConfig_def exLibrary_def
      visitsEachEntryOnce_def exPartialBatch_def exMessage_def nextWait_def jitteredBackOff_def
      exDraws_def)

theorem pollBatch_broker_error_witness:
  "pollBatch exPollConsumer
     [Polled (Some (Message (exMessage 0 ''a'' ''full'' []))), Polled (Some (KafkaError ''down'')),
      Polled (Some (KafkaError ''down'')), Cancelled]
     = Some ((exPartialBatch, None), [Errorf ''kafka error'' (Error ''down'')],
             [Polled (Some (KafkaError ''down'')), Cancelled])
   \<and> pollBatch exPollConsumer [Polled (Some (KafkaError ''down'')), Cancelled]
     = Some ((newMessageBatch, Some (Error ''kafka error: down'')),
             [Errorf ''kafka error'' (Error ''down'')], [Cancelled])
   \<and> (\<exists>err tail c'.
        runLoop id exPollConsumer []
          [Polled (Some (Message (exMessage 0 ''a'' ''full'' []))),
           Polled (Some (KafkaError ''down'')), Polled (Some (KafkaError ''down'')), Cancelled]
        = Some (err,
            [Errorf ''kafka error'' (Error ''down''), Pause (''identity__dev'', 0),
             GoProcessPartition (''identity__dev'', 0) [exMessage 0 ''a'' ''full'' []]] @ tail, c'))
   \<and> (\<exists>err tail c'.
        runLoop id exPollConsumer [] [Polled (Some (KafkaError ''down'')), Cancelled]
        = Some (err,
            [Errorf ''kafka error'' (Error ''down''),
             Errorf ''error polling kafka'' (Error ''kafka error: down''), Sleep 729] @ tail, c'))
   \<and> map_option (fst \<circ> snd) (runLoop id exPollConsumer []
          [Polled (Some (Message (exMessage 0 ''a'' ''full'' []))),
           Polled (Some (KafkaError ''down'')), Polled (Some (KafkaError ''down'')), Cancelled])
       = Some [Errorf ''kafka error'' (Error ''down''), Pause (''identity__dev'', 0),
               GoProcessPartition (''identity__dev'', 0) [exMessage 0 ''a'' ''full'' []],
               Errorf ''kafka error'' (Error ''down''),
               Errorf ''error polling kafka'' (Error ''kafka error: down''), Sleep 729]"
proof -
  have run: "map_option (fst \<circ> snd) (runLoop id exPollConsumer []
          [Polled (Some (Message (exMessage 0 ''a'' ''full'' []))),
           Polled (Some (KafkaError ''down'')), Polled (Some (KafkaError ''down'')), Cancelled])
       = Some [Errorf ''kafka error'' (Error ''down''), Pause (''identity__dev'', 0),
               GoProcessPartition (''identity__dev'', 0) [exMessage 0 ''a'' ''full'' []],
               Errorf ''kafka error'' (Error ''down''),
               Errorf ''error polling kafka'' (Error ''kafka error: down''), Sleep 729]"
    by (simp add: example_poll_defs)
  show ?thesis
    using pollBatch_broker_error [where c = exPollConsumer and e = "''down''"
        and msgs = "[exMessage 0 ''a'' ''full'' []]"
        and rest = "[Polled (Some (KafkaError ''down'')), Cancelled]"
        and rangeOrder = id and racts = "[]"]
      pollBatch_broker_error [where c = exPollConsumer and e = "''down''" and msgs = "[]"
        and rest = "[Cancelled]" and rangeOrder = id and racts = "[]"]
      example_poll_facts run
    by (simp add: example_partial addMessages_def [of _ "[]"] del: pollLoop.simps)
       (simp add: exPartialBatch_def)
qed

end
